theory Spec2Isabelle
  imports Complex_Main "HOL-Library.AList"
begin

text \<open>
  The pose-to-repetition engine of the buffered webcam component, the second module of
  \<^verbatim>\<open>src/client/src/pages/Workouts.jsx\<close> (lines 218 to 592), together with the count
  store of the provider in \<^verbatim>\<open>src/unnamed/part_000\<close>.
\<close>

section \<open>JavaScript numbers\<close>

text \<open>
  Keypoint coordinates, scores and thresholds are JavaScript numbers. A finite number is
  modelled by its exact real value (no rounding, no overflow, no signed zero); the three
  special values are kept, since the keypoint filter tests for them. Timestamps
  (\<^verbatim>\<open>Date.now()\<close>) and counts are integers.
\<close>

datatype jsnum = Num real | PInf | NInf | NaN

fun js_isNaN :: "jsnum \<Rightarrow> bool" where
  "js_isNaN NaN = True"
| "js_isNaN _ = False"

fun js_isFinite :: "jsnum \<Rightarrow> bool" where
  "js_isFinite (Num a) = True"
| "js_isFinite _ = False"

fun js_neg :: "jsnum \<Rightarrow> jsnum" where
  "js_neg (Num a) = Num (- a)"
| "js_neg PInf = NInf"
| "js_neg NInf = PInf"
| "js_neg NaN = NaN"

fun js_add :: "jsnum \<Rightarrow> jsnum \<Rightarrow> jsnum" where
  "js_add NaN _ = NaN"
| "js_add _ NaN = NaN"
| "js_add (Num a) (Num b) = Num (a + b)"
| "js_add PInf NInf = NaN"
| "js_add NInf PInf = NaN"
| "js_add PInf _ = PInf"
| "js_add _ PInf = PInf"
| "js_add NInf _ = NInf"
| "js_add _ NInf = NInf"

definition js_sub :: "jsnum \<Rightarrow> jsnum \<Rightarrow> jsnum" where
  "js_sub a b = js_add a (js_neg b)"

fun js_mul :: "jsnum \<Rightarrow> jsnum \<Rightarrow> jsnum" where
  "js_mul NaN _ = NaN"
| "js_mul _ NaN = NaN"
| "js_mul (Num a) (Num b) = Num (a * b)"
| "js_mul (Num a) PInf = (if a = 0 then NaN else if 0 < a then PInf else NInf)"
| "js_mul (Num a) NInf = (if a = 0 then NaN else if 0 < a then NInf else PInf)"
| "js_mul PInf (Num b) = (if b = 0 then NaN else if 0 < b then PInf else NInf)"
| "js_mul NInf (Num b) = (if b = 0 then NaN else if 0 < b then NInf else PInf)"
| "js_mul PInf PInf = PInf"
| "js_mul PInf NInf = NInf"
| "js_mul NInf PInf = NInf"
| "js_mul NInf NInf = PInf"

text \<open>\<^verbatim>\<open>a / 2\<close>, the only division of the detectors.\<close>

fun js_half :: "jsnum \<Rightarrow> jsnum" where
  "js_half (Num a) = Num (a / 2)"
| "js_half PInf = PInf"
| "js_half NInf = NInf"
| "js_half NaN = NaN"

fun js_abs :: "jsnum \<Rightarrow> jsnum" where
  "js_abs (Num a) = Num \<bar>a\<bar>"
| "js_abs PInf = PInf"
| "js_abs NInf = PInf"
| "js_abs NaN = NaN"

text \<open>\<^verbatim>\<open>Math.hypot\<close>: an infinite argument wins over \<^verbatim>\<open>NaN\<close>.\<close>

fun js_hypot :: "jsnum \<Rightarrow> jsnum \<Rightarrow> jsnum" where
  "js_hypot PInf _ = PInf"
| "js_hypot NInf _ = PInf"
| "js_hypot _ PInf = PInf"
| "js_hypot _ NInf = PInf"
| "js_hypot NaN _ = NaN"
| "js_hypot _ NaN = NaN"
| "js_hypot (Num a) (Num b) = Num (sqrt (a * a + b * b))"

text \<open>Comparisons: every comparison with \<^verbatim>\<open>NaN\<close> is false.\<close>

fun js_lt :: "jsnum \<Rightarrow> jsnum \<Rightarrow> bool" where
  "js_lt NaN _ = False"
| "js_lt _ NaN = False"
| "js_lt (Num a) (Num b) = (a < b)"
| "js_lt PInf _ = False"
| "js_lt _ NInf = False"
| "js_lt _ PInf = True"
| "js_lt NInf _ = True"

fun js_le :: "jsnum \<Rightarrow> jsnum \<Rightarrow> bool" where
  "js_le NaN _ = False"
| "js_le _ NaN = False"
| "js_le (Num a) (Num b) = (a \<le> b)"
| "js_le NInf _ = True"
| "js_le _ PInf = True"
| "js_le PInf _ = False"
| "js_le _ NInf = False"

definition js_gt :: "jsnum \<Rightarrow> jsnum \<Rightarrow> bool" where
  "js_gt a b = js_lt b a"

definition js_ge :: "jsnum \<Rightarrow> jsnum \<Rightarrow> bool" where
  "js_ge a b = js_le b a"

section \<open>Keypoints and the keypoint filter\<close>

text \<open>
  A keypoint object of the pose model: \<^verbatim>\<open>x\<close>, \<^verbatim>\<open>y\<close> and \<^verbatim>\<open>score\<close>
  (\<open>None\<close> when the score is \<^verbatim>\<open>null\<close> or \<^verbatim>\<open>undefined\<close>). Any further
  property, such as the name, lives in the record's extension and is kept by the spread
  \<^verbatim>\<open>{ ...kp, x, y }\<close>.
\<close>

record keypoint =
  kx :: jsnum
  ky :: jsnum
  score :: "jsnum option"

text \<open>The array of a pose: an entry is \<open>None\<close> when it is \<^verbatim>\<open>null\<close> or \<^verbatim>\<open>undefined\<close>.\<close>

type_synonym keypoints = "keypoint option list"

definition KEYPOINT_INDEX :: "(string \<times> nat) list" where
  "KEYPOINT_INDEX =
     [(''nose'', 0), (''left_eye'', 1), (''right_eye'', 2), (''left_ear'', 3),
      (''right_ear'', 4), (''left_shoulder'', 5), (''right_shoulder'', 6),
      (''left_elbow'', 7), (''right_elbow'', 8), (''left_wrist'', 9),
      (''right_wrist'', 10), (''left_hip'', 11), (''right_hip'', 12),
      (''left_knee'', 13), (''right_knee'', 14), (''left_ankle'', 15),
      (''right_ankle'', 16)]"

text \<open>
  \<^verbatim>\<open>const idx = KEYPOINT_INDEX[name]; const kp = keypoints?.[idx];\<close>
  An unknown name, a missing array and an index past the end all give \<^verbatim>\<open>undefined\<close>.
\<close>

definition rawKeypoint :: "keypoints option \<Rightarrow> string \<Rightarrow> keypoint option" where
  "rawKeypoint kps name =
     (case map_of KEYPOINT_INDEX name of
        None \<Rightarrow> None
      | Some idx \<Rightarrow>
          (case kps of
             None \<Rightarrow> None
           | Some ks \<Rightarrow> if idx < length ks then ks ! idx else None))"

text \<open>
  \<^verbatim>\<open>getKeypointByName\<close> (lines 327 to 335):
  \<^verbatim>\<open>
  if (!kp || kp.score == null || kp.score < 0.2) return null;
  const x = kp.x * videoWidth;
  const y = kp.y * videoHeight;
  if (isNaN(x) || isNaN(y)) return null;
  return { ...kp, x, y };
  \<close>
\<close>

definition getKeypointByName ::
  "keypoints option \<Rightarrow> string \<Rightarrow> jsnum \<Rightarrow> jsnum \<Rightarrow> keypoint option" where
  "getKeypointByName kps name videoWidth videoHeight =
     (case rawKeypoint kps name of
        None \<Rightarrow> None
      | Some kp \<Rightarrow>
          (case score kp of
             None \<Rightarrow> None
           | Some sc \<Rightarrow>
               if js_lt sc (Num 0.2) then None
               else
                 let x = js_mul (kx kp) videoWidth;
                     y = js_mul (ky kp) videoHeight
                 in if js_isNaN x \<or> js_isNaN y then None
                    else Some (kp\<lparr>kx := x, ky := y\<rparr>)))"

section \<open>The state of the component\<close>

record lastTimes_t =
  blink :: int
  pushUp :: int
  highJump :: int
  squat :: int
  jumpingJack :: int
  lunge :: int

record detectorState =
  handLifted :: bool
  blinkDetected :: bool
  pushUpState :: string
  highJumpState :: string
  squatState :: string
  jumpingJackState :: string
  lungeState :: string
  lastTimes :: lastTimes_t

text \<open>
  A counts object: its keys in insertion order, each with its number.
  \<open>AList.update\<close> is the assignment \<^verbatim>\<open>obj[key] = v\<close>: an existing key keeps
  its place, a new one goes to the end.
\<close>

type_synonym countsObj = "(string \<times> int) list"

text \<open>\<^verbatim>\<open>obj?.[k] ?? 0\<close>\<close>

definition countOr0 :: "countsObj \<Rightarrow> string \<Rightarrow> int" where
  "countOr0 obj k = (case map_of obj k of None \<Rightarrow> 0 | Some v \<Rightarrow> v)"

definition defaultLocalCounts :: countsObj where
  "defaultLocalCounts =
     [(''handLifts'', 0), (''eyeBlinks'', 0), (''pushUps'', 0), (''highJumps'', 0),
      (''squats'', 0), (''jumpingJacks'', 0), (''lunges'', 0)]"

text \<open>
  The component's refs (\<^verbatim>\<open>stateRef\<close>, \<^verbatim>\<open>localCountsRef\<close>,
  \<^verbatim>\<open>lastContextFlush\<close>, lines 275 to 295) together with the provider's
  \<^verbatim>\<open>counts\<close>, the published store. The \<^verbatim>\<open>counts\<close> the callbacks of the
  component close over are the provider's current ones (every update re-renders the
  component before the next frame is processed).
\<close>

record webcam =
  stateRef :: detectorState
  localCountsRef :: countsObj
  lastContextFlush :: int
  counts :: countsObj

definition initialStateRef :: detectorState where
  "initialStateRef =
     \<lparr> handLifted = False, blinkDetected = False, pushUpState = ''up'',
       highJumpState = ''down'', squatState = ''up'', jumpingJackState = ''closed'',
       lungeState = ''up'',
       lastTimes = \<lparr> blink = 0, pushUp = 0, highJump = 0, squat = 0,
                     jumpingJack = 0, lunge = 0 \<rparr> \<rparr>"

text \<open>The state after mounting at time \<open>t0\<close> (\<^verbatim>\<open>useRef(Date.now())\<close>).\<close>

definition initialState :: "int \<Rightarrow> webcam" where
  "initialState t0 =
     \<lparr> stateRef = initialStateRef, localCountsRef = defaultLocalCounts,
       lastContextFlush = t0, counts = defaultLocalCounts \<rparr>"

section \<open>The count buffer\<close>

text \<open>\<^verbatim>\<open>setCounts((prev) => ({ ...prev, [key]: value }))\<close>\<close>

definition updateCount :: "string \<Rightarrow> int \<Rightarrow> webcam \<Rightarrow> webcam" where
  "updateCount key val st = st\<lparr>counts := AList.update key val (counts st)\<rparr>"

text \<open>\<^verbatim>\<open>localCountsRef.current[key] = (localCountsRef.current[key] ?? 0) + 1\<close>\<close>

definition bufferIncrement :: "string \<Rightarrow> webcam \<Rightarrow> webcam" where
  "bufferIncrement key st =
     st\<lparr>localCountsRef :=
          AList.update key (countOr0 (localCountsRef st) key + 1) (localCountsRef st)\<rparr>"

text \<open>
  The body of the \<^verbatim>\<open>forEach\<close> of \<^verbatim>\<open>flushCountsToContext\<close>, for one key
  \<open>k\<close> of the buffer; \<open>ctx\<close> is the \<^verbatim>\<open>counts\<close> of the closure.
\<close>

definition flushKey :: "countsObj \<Rightarrow> countsObj \<Rightarrow> string \<Rightarrow> webcam \<Rightarrow> webcam" where
  "flushKey loc ctx k st =
     (case map_of loc k of
        None \<Rightarrow> st
      | Some localVal \<Rightarrow>
          let contextVal = countOr0 ctx k
          in if localVal \<noteq> contextVal then updateCount k localVal st else st)"

text \<open>
  \<^verbatim>\<open>flushCountsToContext\<close> (lines 343 to 358):
  \<^verbatim>\<open>
  const now = Date.now();
  if (now - lastContextFlush.current < 800) return;
  lastContextFlush.current = now;
  Object.keys(localCountsRef.current).forEach((k) => { ... });
  \<close>
  \<^verbatim>\<open>updateCount\<close> is always defined (the provider's, or the fallback), so the first
  guard never returns.
\<close>

definition flushCountsToContext :: "int \<Rightarrow> webcam \<Rightarrow> webcam" where
  "flushCountsToContext now st =
     (if now - lastContextFlush st < 800 then st
      else
        let loc = localCountsRef st; ctx = counts st
        in fold (flushKey loc ctx) (map fst loc) (st\<lparr>lastContextFlush := now\<rparr>))"

section \<open>The detectors\<close>

text \<open>
  The seven blocks of \<^verbatim>\<open>detectAndProcess\<close> (lines 403 to 486), each on the filtered
  keypoints it reads, with \<open>s\<close> for \<^verbatim>\<open>stateRef.current\<close> and \<open>lt\<close> for
  \<^verbatim>\<open>s.lastTimes\<close>. A block whose keypoints are not all there leaves the state alone.
\<close>

definition handLift_block :: "keypoint option \<Rightarrow> keypoint option \<Rightarrow> webcam \<Rightarrow> webcam" where
  "handLift_block leftWrist leftShoulder st =
     (case (leftWrist, leftShoulder) of
        (Some lw, Some ls) \<Rightarrow>
          if js_lt (ky lw) (js_add (ky ls) (Num 10)) \<and> \<not> handLifted (stateRef st)
          then bufferIncrement ''handLifts''
                 (st\<lparr>stateRef := (stateRef st)\<lparr>handLifted := True\<rparr>\<rparr>)
          else if js_ge (ky lw) (js_add (ky ls) (Num 10))
          then st\<lparr>stateRef := (stateRef st)\<lparr>handLifted := False\<rparr>\<rparr>
          else st
      | _ \<Rightarrow> st)"

definition earAvg :: "keypoint \<Rightarrow> keypoint \<Rightarrow> keypoint \<Rightarrow> jsnum" where
  "earAvg le re n =
     (let leftEyeToNose = js_hypot (js_sub (kx le) (kx n)) (js_sub (ky le) (ky n));
          rightEyeToNose = js_hypot (js_sub (kx re) (kx n)) (js_sub (ky re) (ky n))
      in js_half (js_add leftEyeToNose rightEyeToNose))"

definition blink_block ::
  "int \<Rightarrow> keypoint option \<Rightarrow> keypoint option \<Rightarrow> keypoint option \<Rightarrow> webcam \<Rightarrow> webcam" where
  "blink_block now leftEye rightEye nose st =
     (case (leftEye, rightEye, nose) of
        (Some le, Some re, Some n) \<Rightarrow>
          let s = stateRef st; lt = lastTimes s
          in if js_lt (earAvg le re n) (Num 80) \<and> \<not> blinkDetected s \<and> now - blink lt > 250
             then bufferIncrement ''eyeBlinks''
                    (st\<lparr>stateRef := s\<lparr>blinkDetected := True, lastTimes := lt\<lparr>blink := now\<rparr>\<rparr>\<rparr>)
             else if js_gt (earAvg le re n) (Num 95)
             then st\<lparr>stateRef := s\<lparr>blinkDetected := False\<rparr>\<rparr>
             else st
      | _ \<Rightarrow> st)"

definition pushUp_block :: "int \<Rightarrow> jsnum \<Rightarrow> keypoint option \<Rightarrow> webcam \<Rightarrow> webcam" where
  "pushUp_block now videoHeight rightShoulderKP st =
     (case rightShoulderKP of
        Some rs \<Rightarrow>
          let s = stateRef st; lt = lastTimes s; shoulderY = ky rs
          in if js_gt shoulderY (js_mul videoHeight (Num 0.45)) \<and> pushUpState s = ''up''
                \<and> now - pushUp lt > 400
             then st\<lparr>stateRef := s\<lparr>pushUpState := ''down''\<rparr>\<rparr>
             else if js_lt shoulderY (js_mul videoHeight (Num 0.25)) \<and> pushUpState s = ''down''
             then bufferIncrement ''pushUps''
                    (st\<lparr>stateRef := s\<lparr>pushUpState := ''up'', lastTimes := lt\<lparr>pushUp := now\<rparr>\<rparr>\<rparr>)
             else st
      | None \<Rightarrow> st)"

definition highJump_block ::
  "int \<Rightarrow> jsnum \<Rightarrow> keypoint option \<Rightarrow> keypoint option \<Rightarrow> webcam \<Rightarrow> webcam" where
  "highJump_block now videoHeight leftAnkle rightAnkle st =
     (case (leftAnkle, rightAnkle) of
        (Some la, Some ra) \<Rightarrow>
          let s = stateRef st; lt = lastTimes s;
              ankleAvgY = js_half (js_add (ky la) (ky ra))
          in if js_lt ankleAvgY (js_mul videoHeight (Num 0.24)) \<and> highJumpState s = ''down''
                \<and> now - highJump lt > 500
             then bufferIncrement ''highJumps''
                    (st\<lparr>stateRef := s\<lparr>highJumpState := ''up'', lastTimes := lt\<lparr>highJump := now\<rparr>\<rparr>\<rparr>)
             else if js_gt ankleAvgY (js_mul videoHeight (Num 0.66))
             then st\<lparr>stateRef := s\<lparr>highJumpState := ''down''\<rparr>\<rparr>
             else st
      | _ \<Rightarrow> st)"

definition squat_block :: "int \<Rightarrow> keypoint option \<Rightarrow> keypoint option \<Rightarrow> webcam \<Rightarrow> webcam" where
  "squat_block now leftKnee leftHip st =
     (case (leftKnee, leftHip) of
        (Some lk, Some lh) \<Rightarrow>
          let s = stateRef st; lt = lastTimes s
          in if js_gt (ky lk) (js_add (ky lh) (Num 40)) \<and> squatState s = ''up''
                \<and> now - squat lt > 500
             then st\<lparr>stateRef := s\<lparr>squatState := ''down''\<rparr>\<rparr>
             else if js_lt (ky lk) (js_add (ky lh) (Num 10)) \<and> squatState s = ''down''
             then bufferIncrement ''squats''
                    (st\<lparr>stateRef := s\<lparr>squatState := ''up'', lastTimes := lt\<lparr>squat := now\<rparr>\<rparr>\<rparr>)
             else st
      | _ \<Rightarrow> st)"

definition jumpingJack_block ::
  "int \<Rightarrow> jsnum \<Rightarrow> keypoint option \<Rightarrow> keypoint option \<Rightarrow> keypoint option \<Rightarrow> keypoint option
     \<Rightarrow> webcam \<Rightarrow> webcam" where
  "jumpingJack_block now videoWidth leftWrist rightWrist leftAnkle rightAnkle st =
     (case (leftWrist, rightWrist, leftAnkle, rightAnkle) of
        (Some lw, Some rw, Some la, Some ra) \<Rightarrow>
          let s = stateRef st; lt = lastTimes s;
              armSpread = js_abs (js_sub (kx lw) (kx rw));
              legSpread = js_abs (js_sub (kx la) (kx ra))
          in if js_gt armSpread (js_mul videoWidth (Num 0.34))
                \<and> js_gt legSpread (js_mul videoWidth (Num 0.18))
                \<and> jumpingJackState s = ''closed'' \<and> now - jumpingJack lt > 350
             then bufferIncrement ''jumpingJacks''
                    (st\<lparr>stateRef := s\<lparr>jumpingJackState := ''open'',
                                       lastTimes := lt\<lparr>jumpingJack := now\<rparr>\<rparr>\<rparr>)
             else if js_lt armSpread (js_mul videoWidth (Num 0.12))
                     \<and> js_lt legSpread (js_mul videoWidth (Num 0.06))
             then st\<lparr>stateRef := s\<lparr>jumpingJackState := ''closed''\<rparr>\<rparr>
             else st
      | _ \<Rightarrow> st)"

definition lunge_block :: "int \<Rightarrow> keypoint option \<Rightarrow> keypoint option \<Rightarrow> webcam \<Rightarrow> webcam" where
  "lunge_block now rightKnee rightHip st =
     (case (rightKnee, rightHip) of
        (Some rk, Some rh) \<Rightarrow>
          let s = stateRef st; lt = lastTimes s;
              kneeHipDistance = js_abs (js_sub (ky rk) (ky rh))
          in if js_gt kneeHipDistance (Num 80) \<and> js_gt (kx rk) (js_add (kx rh) (Num 10))
                \<and> lungeState s = ''up'' \<and> now - lunge lt > 500
             then st\<lparr>stateRef := s\<lparr>lungeState := ''down''\<rparr>\<rparr>
             else if js_lt kneeHipDistance (Num 40) \<and> lungeState s = ''down''
             then bufferIncrement ''lunges''
                    (st\<lparr>stateRef := s\<lparr>lungeState := ''up'', lastTimes := lt\<lparr>lunge := now\<rparr>\<rparr>\<rparr>)
             else st
      | _ \<Rightarrow> st)"

section \<open>Processing a frame\<close>

text \<open>
  What one run of \<^verbatim>\<open>detectAndProcess\<close> (lines 360 to 496) reads from outside: whether the detector and
  the video are ready, the video element's size (an unsigned integer, 0 when unknown), the
  keypoints of the first pose (\<open>None\<close> when there is no pose), and the two clock readings,
  the one of \<^verbatim>\<open>detectAndProcess\<close> and the later one of \<^verbatim>\<open>flushCountsToContext\<close>.
\<close>

record frame =
  ready :: bool
  elVideoWidth :: nat
  elVideoHeight :: nat
  poseKeypoints :: "keypoints option"
  dateNow :: int
  flushNow :: int

text \<open>\<^verbatim>\<open>videoEl.videoWidth || videoConstraints.width\<close>\<close>

definition frameWidth :: "frame \<Rightarrow> jsnum" where
  "frameWidth f = Num (real (if elVideoWidth f = 0 then 640 else elVideoWidth f))"

definition frameHeight :: "frame \<Rightarrow> jsnum" where
  "frameHeight f = Num (real (if elVideoHeight f = 0 then 480 else elVideoHeight f))"

text \<open>The frames that reach the detectors: the others only reschedule the loop.\<close>

definition processed :: "frame \<Rightarrow> bool" where
  "processed f =
     (ready f \<and> (case poseKeypoints f of None \<Rightarrow> False | Some ks \<Rightarrow> \<not> length ks < 17))"

definition detectAndProcess :: "frame \<Rightarrow> webcam \<Rightarrow> webcam" where
  "detectAndProcess f st =
     (if \<not> ready f then st
      else
        let videoWidth = frameWidth f; videoHeight = frameHeight f
        in case poseKeypoints f of
             None \<Rightarrow> st
           | Some ks \<Rightarrow>
               if length ks < 17 then st
               else
                 let now = dateNow f;
                     kp = (\<lambda>name. getKeypointByName (Some ks) name videoWidth videoHeight);
                     leftWrist = kp ''left_wrist'';
                     rightWrist = kp ''right_wrist'';
                     leftShoulder = kp ''left_shoulder'';
                     leftEye = kp ''left_eye'';
                     rightEye = kp ''right_eye'';
                     nose = kp ''nose'';
                     rightShoulderKP = kp ''right_shoulder'';
                     leftAnkle = kp ''left_ankle'';
                     rightAnkle = kp ''right_ankle'';
                     leftKnee = kp ''left_knee'';
                     leftHip = kp ''left_hip'';
                     rightKnee = kp ''right_knee'';
                     rightHip = kp ''right_hip'';
                     st1 = handLift_block leftWrist leftShoulder st;
                     st2 = blink_block now leftEye rightEye nose st1;
                     st3 = pushUp_block now videoHeight rightShoulderKP st2;
                     st4 = highJump_block now videoHeight leftAnkle rightAnkle st3;
                     st5 = squat_block now leftKnee leftHip st4;
                     st6 = jumpingJack_block now videoWidth leftWrist rightWrist
                             leftAnkle rightAnkle st5;
                     st7 = lunge_block now rightKnee rightHip st6
                 in flushCountsToContext (flushNow f) st7)"

text \<open>The animation-frame loop, on the frames that arrive one after the other.\<close>

fun run :: "webcam \<Rightarrow> frame list \<Rightarrow> webcam" where
  "run st [] = st"
| "run st (f # fs) = run (detectAndProcess f st) fs"

section \<open>The exercises and their table rows\<close>

text \<open>The keypoint a detector block receives: the filter applied to the frame.\<close>

definition filtered :: "frame \<Rightarrow> string \<Rightarrow> keypoint option" where
  "filtered f name = getKeypointByName (poseKeypoints f) name (frameWidth f) (frameHeight f)"

datatype exercise = HandLift | EyeBlink | PushUp | HighJump | Squat | JumpingJack | Lunge

fun countKey :: "exercise \<Rightarrow> string" where
  "countKey HandLift = ''handLifts''"
| "countKey EyeBlink = ''eyeBlinks''"
| "countKey PushUp = ''pushUps''"
| "countKey HighJump = ''highJumps''"
| "countKey Squat = ''squats''"
| "countKey JumpingJack = ''jumpingJacks''"
| "countKey Lunge = ''lunges''"

text \<open>The buffered and the published count of an exercise.\<close>

definition cnt :: "exercise \<Rightarrow> webcam \<Rightarrow> int" where
  "cnt e st = countOr0 (localCountsRef st) (countKey e)"

definition published :: "exercise \<Rightarrow> webcam \<Rightarrow> int" where
  "published e st = countOr0 (counts st) (countKey e)"

text \<open>The rest state of each detector is the one \<^verbatim>\<open>stateRef\<close> starts with.\<close>

fun atRest :: "exercise \<Rightarrow> detectorState \<Rightarrow> bool" where
  "atRest HandLift s = (\<not> handLifted s)"
| "atRest EyeBlink s = (\<not> blinkDetected s)"
| "atRest PushUp s = (pushUpState s = ''up'')"
| "atRest HighJump s = (highJumpState s = ''down'')"
| "atRest Squat s = (squatState s = ''up'')"
| "atRest JumpingJack s = (jumpingJackState s = ''closed'')"
| "atRest Lunge s = (lungeState s = ''up'')"

fun inActive :: "exercise \<Rightarrow> detectorState \<Rightarrow> bool" where
  "inActive HandLift s = handLifted s"
| "inActive EyeBlink s = blinkDetected s"
| "inActive PushUp s = (pushUpState s = ''down'')"
| "inActive HighJump s = (highJumpState s = ''up'')"
| "inActive Squat s = (squatState s = ''down'')"
| "inActive JumpingJack s = (jumpingJackState s = ''open'')"
| "inActive Lunge s = (lungeState s = ''down'')"

text \<open>The time of the detector's last accepted event (the hand lift keeps none).\<close>

fun lastTime :: "exercise \<Rightarrow> detectorState \<Rightarrow> int" where
  "lastTime HandLift s = 0"
| "lastTime EyeBlink s = blink (lastTimes s)"
| "lastTime PushUp s = pushUp (lastTimes s)"
| "lastTime HighJump s = highJump (lastTimes s)"
| "lastTime Squat s = squat (lastTimes s)"
| "lastTime JumpingJack s = jumpingJack (lastTimes s)"
| "lastTime Lunge s = lunge (lastTimes s)"

fun debounce :: "exercise \<Rightarrow> int option" where
  "debounce HandLift = None"
| "debounce EyeBlink = Some 250"
| "debounce PushUp = Some 400"
| "debounce HighJump = Some 500"
| "debounce Squat = Some 500"
| "debounce JumpingJack = Some 350"
| "debounce Lunge = Some 500"

text \<open>The block of an exercise, on the keypoints \<^verbatim>\<open>detectAndProcess\<close> hands to it.\<close>

fun blockOf :: "exercise \<Rightarrow> frame \<Rightarrow> webcam \<Rightarrow> webcam" where
  "blockOf HandLift f st =
     handLift_block (filtered f ''left_wrist'') (filtered f ''left_shoulder'') st"
| "blockOf EyeBlink f st =
     blink_block (dateNow f) (filtered f ''left_eye'') (filtered f ''right_eye'')
       (filtered f ''nose'') st"
| "blockOf PushUp f st =
     pushUp_block (dateNow f) (frameHeight f) (filtered f ''right_shoulder'') st"
| "blockOf HighJump f st =
     highJump_block (dateNow f) (frameHeight f) (filtered f ''left_ankle'')
       (filtered f ''right_ankle'') st"
| "blockOf Squat f st =
     squat_block (dateNow f) (filtered f ''left_knee'') (filtered f ''left_hip'') st"
| "blockOf JumpingJack f st =
     jumpingJack_block (dateNow f) (frameWidth f) (filtered f ''left_wrist'')
       (filtered f ''right_wrist'') (filtered f ''left_ankle'') (filtered f ''right_ankle'') st"
| "blockOf Lunge f st =
     lunge_block (dateNow f) (filtered f ''right_knee'') (filtered f ''right_hip'') st"

text \<open>What one detector owns: its state label, its last time and its buffered count.\<close>

fun label :: "exercise \<Rightarrow> detectorState \<Rightarrow> string" where
  "label HandLift s = (if handLifted s then ''true'' else ''false'')"
| "label EyeBlink s = (if blinkDetected s then ''true'' else ''false'')"
| "label PushUp s = pushUpState s"
| "label HighJump s = highJumpState s"
| "label Squat s = squatState s"
| "label JumpingJack s = jumpingJackState s"
| "label Lunge s = lungeState s"

definition view :: "exercise \<Rightarrow> webcam \<Rightarrow> string \<times> bool \<times> bool \<times> int \<times> int" where
  "view e st =
     (label e (stateRef st), atRest e (stateRef st), inActive e (stateRef st),
      lastTime e (stateRef st), cnt e st)"

text \<open>
  The poses of the table of detectors, read on the filtered keypoints of a frame: the
  pose that enters the active state, and the pose that returns to rest.
\<close>

fun activePose :: "exercise \<Rightarrow> frame \<Rightarrow> bool" where
  "activePose HandLift f =
     (case (filtered f ''left_wrist'', filtered f ''left_shoulder'') of
        (Some lw, Some ls) \<Rightarrow> js_lt (ky lw) (js_add (ky ls) (Num 10))
      | _ \<Rightarrow> False)"
| "activePose EyeBlink f =
     (case (filtered f ''left_eye'', filtered f ''right_eye'', filtered f ''nose'') of
        (Some le, Some re, Some n) \<Rightarrow> js_lt (earAvg le re n) (Num 80)
      | _ \<Rightarrow> False)"
| "activePose PushUp f =
     (case filtered f ''right_shoulder'' of
        Some rs \<Rightarrow> js_gt (ky rs) (js_mul (frameHeight f) (Num 0.45))
      | None \<Rightarrow> False)"
| "activePose HighJump f =
     (case (filtered f ''left_ankle'', filtered f ''right_ankle'') of
        (Some la, Some ra) \<Rightarrow>
          js_lt (js_half (js_add (ky la) (ky ra))) (js_mul (frameHeight f) (Num 0.24))
      | _ \<Rightarrow> False)"
| "activePose Squat f =
     (case (filtered f ''left_knee'', filtered f ''left_hip'') of
        (Some lk, Some lh) \<Rightarrow> js_gt (ky lk) (js_add (ky lh) (Num 40))
      | _ \<Rightarrow> False)"
| "activePose JumpingJack f =
     (case (filtered f ''left_wrist'', filtered f ''right_wrist'',
            filtered f ''left_ankle'', filtered f ''right_ankle'') of
        (Some lw, Some rw, Some la, Some ra) \<Rightarrow>
          js_gt (js_abs (js_sub (kx lw) (kx rw))) (js_mul (frameWidth f) (Num 0.34))
          \<and> js_gt (js_abs (js_sub (kx la) (kx ra))) (js_mul (frameWidth f) (Num 0.18))
      | _ \<Rightarrow> False)"
| "activePose Lunge f =
     (case (filtered f ''right_knee'', filtered f ''right_hip'') of
        (Some rk, Some rh) \<Rightarrow>
          js_gt (js_abs (js_sub (ky rk) (ky rh))) (Num 80)
          \<and> js_gt (kx rk) (js_add (kx rh) (Num 10))
      | _ \<Rightarrow> False)"

fun restPose :: "exercise \<Rightarrow> frame \<Rightarrow> bool" where
  "restPose HandLift f =
     (case (filtered f ''left_wrist'', filtered f ''left_shoulder'') of
        (Some lw, Some ls) \<Rightarrow> js_ge (ky lw) (js_add (ky ls) (Num 10))
      | _ \<Rightarrow> False)"
| "restPose EyeBlink f =
     (case (filtered f ''left_eye'', filtered f ''right_eye'', filtered f ''nose'') of
        (Some le, Some re, Some n) \<Rightarrow> js_gt (earAvg le re n) (Num 95)
      | _ \<Rightarrow> False)"
| "restPose PushUp f =
     (case filtered f ''right_shoulder'' of
        Some rs \<Rightarrow> js_lt (ky rs) (js_mul (frameHeight f) (Num 0.25))
      | None \<Rightarrow> False)"
| "restPose HighJump f =
     (case (filtered f ''left_ankle'', filtered f ''right_ankle'') of
        (Some la, Some ra) \<Rightarrow>
          js_gt (js_half (js_add (ky la) (ky ra))) (js_mul (frameHeight f) (Num 0.66))
      | _ \<Rightarrow> False)"
| "restPose Squat f =
     (case (filtered f ''left_knee'', filtered f ''left_hip'') of
        (Some lk, Some lh) \<Rightarrow> js_lt (ky lk) (js_add (ky lh) (Num 10))
      | _ \<Rightarrow> False)"
| "restPose JumpingJack f =
     (case (filtered f ''left_wrist'', filtered f ''right_wrist'',
            filtered f ''left_ankle'', filtered f ''right_ankle'') of
        (Some lw, Some rw, Some la, Some ra) \<Rightarrow>
          js_lt (js_abs (js_sub (kx lw) (kx rw))) (js_mul (frameWidth f) (Num 0.12))
          \<and> js_lt (js_abs (js_sub (kx la) (kx ra))) (js_mul (frameWidth f) (Num 0.06))
      | _ \<Rightarrow> False)"
| "restPose Lunge f =
     (case (filtered f ''right_knee'', filtered f ''right_hip'') of
        (Some rk, Some rh) \<Rightarrow> js_lt (js_abs (js_sub (ky rk) (ky rh))) (Num 40)
      | _ \<Rightarrow> False)"

text \<open>The detectors that count when they enter the active state; the others count on the
  way back to rest.\<close>

fun emitsOnEntry :: "exercise \<Rightarrow> bool" where
  "emitsOnEntry HandLift = True"
| "emitsOnEntry EyeBlink = True"
| "emitsOnEntry PushUp = False"
| "emitsOnEntry HighJump = True"
| "emitsOnEntry Squat = False"
| "emitsOnEntry JumpingJack = True"
| "emitsOnEntry Lunge = False"

text \<open>A repetition event of exercise \<open>e\<close>: the frame changes its buffered count.\<close>

definition emits :: "exercise \<Rightarrow> frame \<Rightarrow> webcam \<Rightarrow> bool" where
  "emits e f st = (cnt e (detectAndProcess f st) \<noteq> cnt e st)"

text \<open>
  The last accepted event of \<open>e\<close> was at \<open>t\<close>, and a detector that counts on the way back
  has left rest only at a time before \<open>lo\<close> and more than the debounce \<open>d\<close> after \<open>t\<close>.
\<close>

definition settled :: "exercise \<Rightarrow> int \<Rightarrow> int \<Rightarrow> int \<Rightarrow> webcam \<Rightarrow> bool" where
  "settled e d t lo st =
     (lastTime e (stateRef st) = t \<and>
      (\<not> emitsOnEntry e \<and> inActive e (stateRef st) \<longrightarrow> t + d < lo))"

section \<open>Flushes along a run\<close>

text \<open>The frame passes the gate of \<^verbatim>\<open>flushCountsToContext\<close>.\<close>

definition flushes :: "frame \<Rightarrow> webcam \<Rightarrow> bool" where
  "flushes f st = (processed f \<and> \<not> flushNow f - lastContextFlush st < 800)"

fun flushTimes :: "webcam \<Rightarrow> frame list \<Rightarrow> int list" where
  "flushTimes st [] = []"
| "flushTimes st (f # fs) =
     (if flushes f st then [flushNow f] else []) @ flushTimes (detectAndProcess f st) fs"

section \<open>The operations the code offers\<close>

datatype op =
  UpdateCount string int
| BufferIncrement string
| FlushCounts int
| ProcessFrame frame

fun applyOp :: "op \<Rightarrow> webcam \<Rightarrow> webcam" where
  "applyOp (UpdateCount key val) st = updateCount key val st"
| "applyOp (BufferIncrement key) st = bufferIncrement key st"
| "applyOp (FlushCounts now) st = flushCountsToContext now st"
| "applyOp (ProcessFrame f) st = detectAndProcess f st"

section \<open>Validation as the specification words it\<close>

text \<open>
  The specification disqualifies a keypoint whose confidence is missing or below 0.2, or
  whose x or y is not a finite number after the rescale. These two predicates follow
  those words; the code's filter is \<open>getKeypointByName\<close> above.
\<close>

definition spec_disqualified :: "keypoint \<Rightarrow> jsnum \<Rightarrow> jsnum \<Rightarrow> bool" where
  "spec_disqualified kp w h =
     (score kp = None \<or> (\<exists>sc. score kp = Some sc \<and> js_lt sc (Num 0.2))
      \<or> \<not> js_isFinite (js_mul (kx kp) w) \<or> \<not> js_isFinite (js_mul (ky kp) h))"

definition spec_absent :: "frame \<Rightarrow> string \<Rightarrow> bool" where
  "spec_absent f name =
     (case rawKeypoint (poseKeypoints f) name of
        None \<Rightarrow> True
      | Some kp \<Rightarrow> spec_disqualified kp (frameWidth f) (frameHeight f))"

section \<open>Example frames\<close>

text \<open>
  A pose of 17 entries with the named keypoints at the given normalised positions and
  score 0.9, the other entries missing; and a 640 by 480 frame at time \<open>t\<close> carrying it.
\<close>

definition examplePose :: "(string \<times> real \<times> real) list \<Rightarrow> keypoints" where
  "examplePose pts =
     map (\<lambda>(name, i).
            case map_of pts name of
              None \<Rightarrow> None
            | Some (a, b) \<Rightarrow> Some \<lparr>kx = Num a, ky = Num b, score = Some (Num 0.9)\<rparr>)
         KEYPOINT_INDEX"

definition exampleFrame :: "int \<Rightarrow> (string \<times> real \<times> real) list \<Rightarrow> frame" where
  "exampleFrame t pts =
     \<lparr> ready = True, elVideoWidth = 640, elVideoHeight = 480,
       poseKeypoints = Some (examplePose pts), dateNow = t, flushNow = t \<rparr>"

text \<open>A keypoint with an infinite abscissa, and a pose that has it at every index.\<close>

definition infKp :: keypoint where
  "infKp = \<lparr>kx = PInf, ky = Num 0.5, score = Some (Num 0.9)\<rparr>"

definition infPose :: keypoints where
  "infPose = replicate 17 (Some infKp)"

text \<open>A state with two counted repetitions that are not yet published.\<close>

definition pendingState :: webcam where
  "pendingState = bufferIncrement ''squats'' (bufferIncrement ''handLifts'' (initialState 1000))"

text \<open>The two frames of a push-up: shoulder low in the image, then high.\<close>

definition pushUpDown :: frame where
  "pushUpDown = exampleFrame 1000 [(''right_shoulder'', 0.5, 0.5)]"

definition pushUpUp :: frame where
  "pushUpUp = exampleFrame 1300 [(''right_shoulder'', 0.5, 0.125)]"

text \<open>A pose with no keypoint, one with scores below 0.2, one whose keypoints all have an
  infinite x, and the two poses of a hand lift.\<close>

definition idle :: "int \<Rightarrow> frame" where
  "idle t = exampleFrame t []"

definition lowScore :: "int \<Rightarrow> frame" where
  "lowScore t =
     \<lparr> ready = True, elVideoWidth = 640, elVideoHeight = 480,
       poseKeypoints =
         Some (replicate 17 (Some \<lparr>kx = Num 0.5, ky = Num 0.25, score = Some (Num 0.1)\<rparr>)),
       dateNow = t, flushNow = t \<rparr>"

definition infFrame :: "int \<Rightarrow> frame" where
  "infFrame t =
     \<lparr> ready = True, elVideoWidth = 640, elVideoHeight = 480,
       poseKeypoints = Some infPose, dateNow = t, flushNow = t \<rparr>"

definition handUp :: "int \<Rightarrow> frame" where
  "handUp t = exampleFrame t [(''left_wrist'', 0.5, 0.25), (''left_shoulder'', 0.5, 0.5)]"


text \<open>The poses of a squat and of a high jump.\<close>

definition squatUp :: "int \<Rightarrow> frame" where
  "squatUp t = exampleFrame t [(''left_knee'', 0.5, 0.5), (''left_hip'', 0.5, 0.5)]"

definition squatDown :: "int \<Rightarrow> frame" where
  "squatDown t = exampleFrame t [(''left_knee'', 0.5, 0.75), (''left_hip'', 0.5, 0.5)]"

definition jump :: "int \<Rightarrow> frame" where
  "jump t = exampleFrame t [(''left_ankle'', 0.25, 0.125), (''right_ankle'', 0.75, 0.125)]"

definition land :: "int \<Rightarrow> frame" where
  "land t = exampleFrame t [(''left_ankle'', 0.25, 0.75), (''right_ankle'', 0.75, 0.75)]"

section \<open>Mounting the component again\<close>






section \<open>Frames, blocks and views\<close>

declare blockOf.simps [simp del]

lemma detectAndProcess_unprocessed: "\<not> processed f \<Longrightarrow> detectAndProcess f st = st"
  by (auto simp: processed_def detectAndProcess_def Let_def split: option.splits)

lemma detectAndProcess_blocks:
  "processed f \<Longrightarrow> detectAndProcess f st =
     flushCountsToContext (flushNow f)
       (blockOf Lunge f (blockOf JumpingJack f (blockOf Squat f (blockOf HighJump f
         (blockOf PushUp f (blockOf EyeBlink f (blockOf HandLift f st)))))))"
  by (auto simp: processed_def detectAndProcess_def Let_def filtered_def blockOf.simps
      split: option.splits)

lemma countOr0_update:
  "countOr0 (AList.update k v obj) k' = (if k' = k then v else countOr0 obj k')"
  by (simp add: countOr0_def update_conv')

lemma fold_flushKey_keeps:
  "stateRef (fold (flushKey loc ctx) ks st) = stateRef st \<and>
   localCountsRef (fold (flushKey loc ctx) ks st) = localCountsRef st \<and>
   lastContextFlush (fold (flushKey loc ctx) ks st) = lastContextFlush st"
  by (induction ks arbitrary: st)
     (auto simp: flushKey_def updateCount_def Let_def split: option.splits)

lemma flush_keeps:
  "stateRef (flushCountsToContext now st) = stateRef st"
  "localCountsRef (flushCountsToContext now st) = localCountsRef st"
  by (simp_all add: flushCountsToContext_def Let_def fold_flushKey_keeps)

lemma view_flush: "view e (flushCountsToContext now st) = view e st"
  by (simp add: view_def cnt_def flush_keeps)

lemmas block_defs =
  blockOf.simps handLift_block_def blink_block_def pushUp_block_def highJump_block_def
  squat_block_def jumpingJack_block_def lunge_block_def bufferIncrement_def Let_def

lemma block_keeps_store:
  "counts (blockOf e f st) = counts st \<and>
   lastContextFlush (blockOf e f st) = lastContextFlush st"
  by (cases e) (auto simp: block_defs split: option.splits)

lemma view_other: "e \<noteq> e' \<Longrightarrow> view e (blockOf e' f st) = view e st"
  by (cases e; cases e')
     (auto simp: view_def cnt_def countOr0_update block_defs split: option.splits)

lemma view_own:
  "view e st1 = view e st2 \<Longrightarrow> view e (blockOf e f st1) = view e (blockOf e f st2)"
  by (cases e)
     (auto simp: view_def cnt_def countOr0_update block_defs split: option.splits)

lemma view_detectAndProcess:
  "view e (detectAndProcess f st) =
     (if processed f then view e (blockOf e f st) else view e st)"
proof (cases "processed f")
  case False
  then show ?thesis by (simp add: detectAndProcess_unprocessed)
next
  case True
  show ?thesis
    by (cases e)
       (auto simp: True detectAndProcess_blocks view_flush view_other intro!: view_own)
qed

section \<open>The keypoint filter\<close>

lemma isNaN_rescale: "0 < w \<Longrightarrow> js_isNaN (js_mul a (Num w)) = (a = NaN)"
  by (cases a) auto

text \<open>
  C7, as the code has it. \<^verbatim>\<open>getKeypointByName\<close> returns \<^verbatim>\<open>null\<close> exactly when
  the keypoint is missing, its score is missing or below 0.2, or its rescaled x or y is
  \<^verbatim>\<open>NaN\<close>; otherwise it returns the keypoint with x multiplied by the frame width
  and y by the frame height. For a positive frame size the rescaled coordinate is
  \<^verbatim>\<open>NaN\<close> only if the raw one is, so an infinite coordinate is not rejected.
\<close>

theorem getKeypointByName_filter:
  "(getKeypointByName kps name w h = None) =
     (case rawKeypoint kps name of
        None \<Rightarrow> True
      | Some kp \<Rightarrow>
          score kp = None \<or> (\<exists>sc. score kp = Some sc \<and> js_lt sc (Num 0.2))
          \<or> js_isNaN (js_mul (kx kp) w) \<or> js_isNaN (js_mul (ky kp) h))
   \<and> (\<forall>kp. rawKeypoint kps name = Some kp \<and> getKeypointByName kps name w h \<noteq> None \<longrightarrow>
          getKeypointByName kps name w h =
            Some (kp\<lparr>kx := js_mul (kx kp) w, ky := js_mul (ky kp) h\<rparr>))
   \<and> (\<forall>a. 0 < a \<longrightarrow> (\<forall>c. js_isNaN (js_mul c (Num a)) = (c = NaN)))"
  by (auto simp: getKeypointByName_def Let_def isNaN_rescale split: option.splits)

theorem getKeypointByName_filter_witness:
  "rawKeypoint (Some (examplePose [(''nose'', 0.5, 0.5)])) ''nose''
     = Some \<lparr>kx = Num 0.5, ky = Num 0.5, score = Some (Num 0.9)\<rparr>
   \<and> getKeypointByName (Some (examplePose [(''nose'', 0.5, 0.5)])) ''nose'' (Num 640) (Num 480)
     = Some \<lparr>kx = Num 320, ky = Num 240, score = Some (Num 0.9)\<rparr>
   \<and> js_isNaN (js_mul PInf (Num 640)) = False"
  using getKeypointByName_filter [of "Some (examplePose [(''nose'', 0.5, 0.5)])" "''nose''"
      "Num 640" "Num 480"]
  by (simp add: rawKeypoint_def KEYPOINT_INDEX_def examplePose_def)

text \<open>
  C7 as stated fails: a keypoint whose x is \<^verbatim>\<open>Infinity\<close> is not finite after the
  rescale, yet the filter returns it.
\<close>

theorem getKeypointByName_filter_counterexample:
  "\<not> ((getKeypointByName (Some infPose) ''nose'' (Num 640) (Num 480) = None) =
       (case rawKeypoint (Some infPose) ''nose'' of
          None \<Rightarrow> True
        | Some kp \<Rightarrow> spec_disqualified kp (Num 640) (Num 480)))"
  by (simp add: getKeypointByName_def rawKeypoint_def KEYPOINT_INDEX_def infKp_def
      infPose_def spec_disqualified_def Let_def)

section \<open>One frame, seen by one detector\<close>

lemma view_fields:
  "label e (stateRef (detectAndProcess f st)) =
     (if processed f then label e (stateRef (blockOf e f st)) else label e (stateRef st))"
  "atRest e (stateRef (detectAndProcess f st)) =
     (if processed f then atRest e (stateRef (blockOf e f st)) else atRest e (stateRef st))"
  "inActive e (stateRef (detectAndProcess f st)) =
     (if processed f then inActive e (stateRef (blockOf e f st))
      else inActive e (stateRef st))"
  "lastTime e (stateRef (detectAndProcess f st)) =
     (if processed f then lastTime e (stateRef (blockOf e f st))
      else lastTime e (stateRef st))"
  "cnt e (detectAndProcess f st) = (if processed f then cnt e (blockOf e f st) else cnt e st)"
  using view_detectAndProcess [of e f st] by (auto simp: view_def split: if_splits)

lemmas example_defs =
  exampleFrame_def examplePose_def filtered_def getKeypointByName_def rawKeypoint_def
  KEYPOINT_INDEX_def frameWidth_def frameHeight_def processed_def Let_def

section \<open>The push-up detector\<close>

text \<open>
  C8. On a processed frame whose right shoulder passes the filter, with \<open>shoulderY\<close> its
  rescaled y: from "up", \<open>shoulderY > 0.45 * frameHeight\<close> and more than 400 ms since the
  last counted push-up lead to "down" without counting; from "up" within the 400 ms
  nothing changes; from "down", \<open>shoulderY < 0.25 * frameHeight\<close> counts one push-up,
  leads to "up" and records the time; in every other case nothing changes.
\<close>

theorem pushUp_detector:
  assumes "processed f" and "filtered f ''right_shoulder'' = Some rs"
  shows "(pushUpState (stateRef st) = ''up''
          \<and> js_gt (ky rs) (js_mul (frameHeight f) (Num 0.45))
          \<and> dateNow f - pushUp (lastTimes (stateRef st)) > 400 \<longrightarrow>
            pushUpState (stateRef (detectAndProcess f st)) = ''down''
            \<and> cnt PushUp (detectAndProcess f st) = cnt PushUp st
            \<and> pushUp (lastTimes (stateRef (detectAndProcess f st)))
                = pushUp (lastTimes (stateRef st)))
       \<and> (pushUpState (stateRef st) = ''up''
          \<and> \<not> dateNow f - pushUp (lastTimes (stateRef st)) > 400 \<longrightarrow>
            pushUpState (stateRef (detectAndProcess f st)) = ''up''
            \<and> cnt PushUp (detectAndProcess f st) = cnt PushUp st
            \<and> pushUp (lastTimes (stateRef (detectAndProcess f st)))
                = pushUp (lastTimes (stateRef st)))
       \<and> (pushUpState (stateRef st) = ''down''
          \<and> js_lt (ky rs) (js_mul (frameHeight f) (Num 0.25)) \<longrightarrow>
            pushUpState (stateRef (detectAndProcess f st)) = ''up''
            \<and> cnt PushUp (detectAndProcess f st) = cnt PushUp st + 1
            \<and> pushUp (lastTimes (stateRef (detectAndProcess f st))) = dateNow f)
       \<and> (\<not> (pushUpState (stateRef st) = ''up''
             \<and> js_gt (ky rs) (js_mul (frameHeight f) (Num 0.45))
             \<and> dateNow f - pushUp (lastTimes (stateRef st)) > 400)
          \<and> \<not> (pushUpState (stateRef st) = ''down''
                \<and> js_lt (ky rs) (js_mul (frameHeight f) (Num 0.25))) \<longrightarrow>
            pushUpState (stateRef (detectAndProcess f st)) = pushUpState (stateRef st)
            \<and> cnt PushUp (detectAndProcess f st) = cnt PushUp st
            \<and> pushUp (lastTimes (stateRef (detectAndProcess f st)))
                = pushUp (lastTimes (stateRef st)))"
proof -
  have l: "pushUpState (stateRef (detectAndProcess f st))
             = pushUpState (stateRef (blockOf PushUp f st))"
    using view_fields(1) [of PushUp f st] assms(1) by simp
  have t: "pushUp (lastTimes (stateRef (detectAndProcess f st)))
             = pushUp (lastTimes (stateRef (blockOf PushUp f st)))"
    using view_fields(4) [of PushUp f st] assms(1) by simp
  have c: "cnt PushUp (detectAndProcess f st) = cnt PushUp (blockOf PushUp f st)"
    using view_fields(5) [of PushUp f st] assms(1) by simp
  show ?thesis
    unfolding l t c
    by (simp add: blockOf.simps pushUp_block_def assms(2) bufferIncrement_def Let_def cnt_def
        countOr0_update)
qed

theorem pushUp_detector_witness:
  "processed pushUpDown
   \<and> filtered pushUpDown ''right_shoulder''
       = Some \<lparr>kx = Num 320, ky = Num 240, score = Some (Num 0.9)\<rparr>
   \<and> processed pushUpUp
   \<and> filtered pushUpUp ''right_shoulder''
       = Some \<lparr>kx = Num 320, ky = Num 60, score = Some (Num 0.9)\<rparr>
   \<and> pushUpState (stateRef (initialState 0)) = ''up''
   \<and> js_gt (Num 240) (js_mul (frameHeight pushUpDown) (Num 0.45))
   \<and> dateNow pushUpDown - pushUp (lastTimes (stateRef (initialState 0))) > 400
   \<and> pushUpState (stateRef (run (initialState 0) [pushUpDown])) = ''down''
   \<and> cnt PushUp (run (initialState 0) [pushUpDown]) = 0
   \<and> js_lt (Num 60) (js_mul (frameHeight pushUpUp) (Num 0.25))
   \<and> pushUpState (stateRef (run (initialState 0) [pushUpDown, pushUpUp])) = ''up''
   \<and> cnt PushUp (run (initialState 0) [pushUpDown, pushUpUp]) = 1
   \<and> pushUp (lastTimes (stateRef (run (initialState 0) [pushUpDown, pushUpUp]))) = 1300"
  using pushUp_detector [of pushUpDown
      "\<lparr>kx = Num 320, ky = Num 240, score = Some (Num 0.9)\<rparr>" "initialState 0"]
    pushUp_detector [of pushUpUp
      "\<lparr>kx = Num 320, ky = Num 60, score = Some (Num 0.9)\<rparr>"
      "detectAndProcess pushUpDown (initialState 0)"]
  by (simp add: pushUpDown_def pushUpUp_def example_defs initialState_def initialStateRef_def
      js_gt_def cnt_def countOr0_def defaultLocalCounts_def)

section \<open>The flush\<close>

lemma flushKey_counts:
  "map_of (counts (flushKey loc ctx a st)) k =
     (if k = a \<and> (\<exists>v. map_of loc k = Some v \<and> v \<noteq> countOr0 ctx k)
      then map_of loc k else map_of (counts st) k)"
  by (auto simp: flushKey_def updateCount_def Let_def update_conv' split: option.splits)

lemma fold_flushKey_counts:
  "map_of (counts (fold (flushKey loc ctx) ks st)) k =
     (if k \<in> set ks \<and> (\<exists>v. map_of loc k = Some v \<and> v \<noteq> countOr0 ctx k)
      then map_of loc k else map_of (counts st) k)"
  by (induction ks arbitrary: st) (auto simp: flushKey_counts)

lemma flush_counts:
  "map_of (counts (flushCountsToContext now st)) k =
     (if \<not> now - lastContextFlush st < 800
         \<and> (\<exists>v. map_of (localCountsRef st) k = Some v \<and> v \<noteq> countOr0 (counts st) k)
      then map_of (localCountsRef st) k else map_of (counts st) k)"
  by (auto simp: flushCountsToContext_def Let_def fold_flushKey_counts
      dest: map_of_SomeD intro: rev_image_eqI)

lemma flush_lastContextFlush:
  "lastContextFlush (flushCountsToContext now st) =
     (if now - lastContextFlush st < 800 then lastContextFlush st else now)"
  by (simp add: flushCountsToContext_def Let_def fold_flushKey_keeps)

text \<open>
  C4. A call of \<^verbatim>\<open>flushCountsToContext\<close> at least 800 ms after the last flush leaves
  the store, for every key of the buffer, at the buffer's value (all the differing entries
  in that one call), leaves the other keys of the store alone and records the time; a call
  before that changes nothing at all. Neither touches the buffer or the detectors.
\<close>

theorem flushCountsToContext_gate:
  "(\<not> now - lastContextFlush st < 800 \<longrightarrow>
      (\<forall>k v. map_of (localCountsRef st) k = Some v \<longrightarrow>
             countOr0 (counts (flushCountsToContext now st)) k = v)
      \<and> (\<forall>k. map_of (localCountsRef st) k = None \<longrightarrow>
             map_of (counts (flushCountsToContext now st)) k = map_of (counts st) k)
      \<and> lastContextFlush (flushCountsToContext now st) = now)
   \<and> (now - lastContextFlush st < 800 \<longrightarrow> flushCountsToContext now st = st)
   \<and> localCountsRef (flushCountsToContext now st) = localCountsRef st
   \<and> stateRef (flushCountsToContext now st) = stateRef st"
proof -
  have a: "countOr0 (counts (flushCountsToContext now st)) k = v"
    if "\<not> now - lastContextFlush st < 800" and "map_of (localCountsRef st) k = Some v" for k v
    using that flush_counts [of now st k] by (auto simp: countOr0_def split: option.splits)
  have b: "map_of (counts (flushCountsToContext now st)) k = map_of (counts st) k"
    if "map_of (localCountsRef st) k = None" for k
    using that flush_counts [of now st k] by simp
  have c: "flushCountsToContext now st = st" if "now - lastContextFlush st < 800"
    using that by (simp add: flushCountsToContext_def)
  show ?thesis
    using a b c by (simp add: flush_lastContextFlush flush_keeps)
qed

theorem flushCountsToContext_gate_witness:
  "\<not> (1800::int) - lastContextFlush pendingState < 800
   \<and> map_of (localCountsRef pendingState) ''handLifts'' = Some 1
   \<and> map_of (localCountsRef pendingState) ''squats'' = Some 1
   \<and> countOr0 (counts pendingState) ''handLifts'' = 0
   \<and> countOr0 (counts pendingState) ''squats'' = 0
   \<and> countOr0 (counts (flushCountsToContext 1800 pendingState)) ''handLifts'' = 1
   \<and> countOr0 (counts (flushCountsToContext 1800 pendingState)) ''squats'' = 1
   \<and> 1799 - lastContextFlush pendingState < 800
   \<and> flushCountsToContext 1799 pendingState = pendingState"
  using flushCountsToContext_gate [of 1800 pendingState]
    flushCountsToContext_gate [of 1799 pendingState]
  by (simp add: pendingState_def bufferIncrement_def initialState_def defaultLocalCounts_def
      countOr0_def)

section \<open>Runs and flush times\<close>

lemma run_append: "run st (xs @ ys) = run (run st xs) ys"
  by (induction xs arbitrary: st) auto

lemma run_snoc: "run st (xs @ [f]) = detectAndProcess f (run st xs)"
  by (simp add: run_append)

lemma block_fields:
  "counts (blockOf e f st) = counts st"
  "lastContextFlush (blockOf e f st) = lastContextFlush st"
  using block_keeps_store [of e f st] by simp_all

lemma detectAndProcess_lastContextFlush:
  "lastContextFlush (detectAndProcess f st) =
     (if flushes f st then flushNow f else lastContextFlush st)"
  by (cases "processed f")
     (auto simp: detectAndProcess_unprocessed detectAndProcess_blocks flushes_def
        flush_lastContextFlush block_fields)

lemma detectAndProcess_counts_noflush:
  "\<not> flushes f st \<Longrightarrow> counts (detectAndProcess f st) = counts st"
  by (cases "processed f")
     (auto simp: detectAndProcess_unprocessed detectAndProcess_blocks flushes_def
        flushCountsToContext_def block_fields)

lemma flushTimes_bounds:
  "successively (\<lambda>a b. 800 \<le> b - a) (flushTimes st fs)
   \<and> (\<forall>t \<in> set (flushTimes st fs). 800 \<le> t - lastContextFlush st)"
proof (induction fs arbitrary: st)
  case Nil
  then show ?case by simp
next
  case (Cons f fs)
  let ?st' = "detectAndProcess f st"
  have ih1: "successively (\<lambda>a b. 800 \<le> b - a) (flushTimes ?st' fs)"
    and ih2: "\<forall>t \<in> set (flushTimes ?st' fs). 800 \<le> t - lastContextFlush ?st'"
    using Cons.IH [of ?st'] by simp_all
  show ?case
  proof (cases "flushes f st")
    case True
    then have l: "lastContextFlush ?st' = flushNow f"
      by (simp add: detectAndProcess_lastContextFlush)
    have g: "800 \<le> flushNow f - lastContextFlush st"
      using True by (simp add: flushes_def)
    have "successively (\<lambda>a b. 800 \<le> b - a) (flushNow f # flushTimes ?st' fs)"
      using ih1 ih2 l by (cases "flushTimes ?st' fs") (auto simp: successively_Cons)
    moreover have "\<forall>t \<in> set (flushTimes ?st' fs). 800 \<le> t - lastContextFlush st"
      using ih2 l g by auto
    ultimately show ?thesis using True g by simp
  next
    case False
    then have "lastContextFlush ?st' = lastContextFlush st"
      by (simp add: detectAndProcess_lastContextFlush)
    then show ?thesis using False ih1 ih2 by simp
  qed
qed

text \<open>
  C3. Along any run from any state, the times at which the flush gate is passed are at
  least 800 ms apart, each of them at least 800 ms after the \<^verbatim>\<open>lastContextFlush\<close>
  of the start (the mount time, for the initial state: the first flush is not exempt);
  the published store changes only in a frame that passes the gate, and such a frame
  records its time.
\<close>

theorem flushes_spaced:
  "successively (\<lambda>a b. 800 \<le> b - a) (flushTimes st fs)
   \<and> (\<forall>t \<in> set (flushTimes st fs). 800 \<le> t - lastContextFlush st)
   \<and> (\<forall>pre f. counts (detectAndProcess f (run st pre)) \<noteq> counts (run st pre) \<longrightarrow>
         flushes f (run st pre))
   \<and> (\<forall>f st'. flushes f st' \<longrightarrow> lastContextFlush (detectAndProcess f st') = flushNow f)"
  using flushTimes_bounds [of st fs] detectAndProcess_counts_noflush
  by (auto simp: detectAndProcess_lastContextFlush)

theorem flushes_spaced_witness:
  "flushTimes pendingState [idle 1800, idle 2000, idle 2600] = [1800, 2600]
   \<and> successively (\<lambda>a b. 800 \<le> b - a) [1800, 2600 :: int]
   \<and> 800 \<le> 1800 - lastContextFlush pendingState
   \<and> 800 \<le> 2600 - lastContextFlush pendingState
   \<and> counts (detectAndProcess (idle 1800) (run pendingState [])) \<noteq> counts (run pendingState [])
   \<and> flushes (idle 1800) (run pendingState [])
   \<and> lastContextFlush (detectAndProcess (idle 1800) pendingState) = 1800"
proof -
  have ft: "flushTimes pendingState [idle 1800, idle 2000, idle 2600] = [1800, 2600]"
    by (simp add: detectAndProcess_lastContextFlush flushes_def idle_def exampleFrame_def
        examplePose_def KEYPOINT_INDEX_def processed_def pendingState_def
        bufferIncrement_def initialState_def)
  have ch: "counts (detectAndProcess (idle 1800) (run pendingState [])) \<noteq> counts (run pendingState [])"
    by (simp add: detectAndProcess_blocks idle_def example_defs block_defs pendingState_def
        initialState_def defaultLocalCounts_def flushCountsToContext_def flushKey_def
        updateCount_def countOr0_def)
  have lp: "lastContextFlush pendingState = 1000"
    by (simp add: pendingState_def bufferIncrement_def initialState_def)
  have fl: "flushes (idle 1800) pendingState"
    by (simp add: flushes_def lp idle_def exampleFrame_def examplePose_def KEYPOINT_INDEX_def
        processed_def)
  note th = flushes_spaced [of pendingState "[idle 1800, idle 2000, idle 2600]"]
  from th have "\<forall>f st'. flushes f st' \<longrightarrow> lastContextFlush (detectAndProcess f st') = flushNow f"
    by blast
  then have lc: "lastContextFlush (detectAndProcess (idle 1800) pendingState) = 1800"
    using fl by (simp add: idle_def exampleFrame_def)
  show ?thesis
    using th ft ch fl lp lc by simp
qed

section \<open>Buffer and store\<close>

lemma bufferIncrement_mono:
  "countOr0 (localCountsRef st) k \<le> countOr0 (localCountsRef (bufferIncrement key st)) k"
  by (simp add: bufferIncrement_def countOr0_update)

lemma block_local:
  "localCountsRef (blockOf e f st) = localCountsRef st
   \<or> localCountsRef (blockOf e f st) = localCountsRef (bufferIncrement (countKey e) st)"
  by (cases e) (auto simp: block_defs split: option.splits)

lemma block_mono:
  "countOr0 (localCountsRef st) k \<le> countOr0 (localCountsRef (blockOf e f st)) k"
  using block_local [of e f st] bufferIncrement_mono [of st k "countKey e"] by auto

lemma detectAndProcess_mono:
  "countOr0 (localCountsRef st) k \<le> countOr0 (localCountsRef (detectAndProcess f st)) k"
proof (cases "processed f")
  case False
  then show ?thesis by (simp add: detectAndProcess_unprocessed)
next
  case True
  have "countOr0 (localCountsRef st) k \<le> countOr0 (localCountsRef (blockOf HandLift f st)) k"
    by (rule block_mono)
  also have "\<dots> \<le> countOr0 (localCountsRef (blockOf EyeBlink f (blockOf HandLift f st))) k"
    by (rule block_mono)
  also have "\<dots> \<le> countOr0 (localCountsRef (blockOf PushUp f (blockOf EyeBlink f
      (blockOf HandLift f st)))) k"
    by (rule block_mono)
  also have "\<dots> \<le> countOr0 (localCountsRef (blockOf HighJump f (blockOf PushUp f
      (blockOf EyeBlink f (blockOf HandLift f st))))) k"
    by (rule block_mono)
  also have "\<dots> \<le> countOr0 (localCountsRef (blockOf Squat f (blockOf HighJump f
      (blockOf PushUp f (blockOf EyeBlink f (blockOf HandLift f st)))))) k"
    by (rule block_mono)
  also have "\<dots> \<le> countOr0 (localCountsRef (blockOf JumpingJack f (blockOf Squat f
      (blockOf HighJump f (blockOf PushUp f (blockOf EyeBlink f (blockOf HandLift f st))))))) k"
    by (rule block_mono)
  also have "\<dots> \<le> countOr0 (localCountsRef (blockOf Lunge f (blockOf JumpingJack f
      (blockOf Squat f (blockOf HighJump f (blockOf PushUp f (blockOf EyeBlink f
      (blockOf HandLift f st)))))))) k"
    by (rule block_mono)
  finally show ?thesis
    by (simp add: True detectAndProcess_blocks flush_keeps)
qed



lemma run_mono:
  "countOr0 (localCountsRef st) k \<le> countOr0 (localCountsRef (run st fs)) k"
proof (induction fs arbitrary: st)
  case Nil
  then show ?case by simp
next
  case (Cons f fs)
  have "countOr0 (localCountsRef st) k \<le> countOr0 (localCountsRef (detectAndProcess f st)) k"
    by (rule detectAndProcess_mono)
  also have "\<dots> \<le> countOr0 (localCountsRef (run (detectAndProcess f st) fs)) k"
    by (rule Cons.IH)
  finally show ?case by simp
qed

lemma handUp_counts: "cnt HandLift (detectAndProcess (handUp t) (initialState t0)) = 1"
proof -
  have "processed (handUp t)"
    by (simp add: handUp_def example_defs)
  then have "cnt HandLift (detectAndProcess (handUp t) (initialState t0))
      = cnt HandLift (blockOf HandLift (handUp t) (initialState t0))"
    by (simp only: view_fields if_True)
  also have "\<dots> = 1"
    by (simp add: blockOf.simps handLift_block_def handUp_def example_defs bufferIncrement_def
        cnt_def countOr0_update initialState_def initialStateRef_def defaultLocalCounts_def
        countOr0_def)
  finally show ?thesis .
qed

section \<open>Frames without a valid keypoint\<close>

lemma block_skips: "\<forall>name. filtered f name = None \<Longrightarrow> blockOf e f st = st"
  by (cases e) (simp_all add: block_defs)

lemma flush_synced:
  assumes "counts st = localCountsRef st"
  shows "counts (flushCountsToContext now st) = counts st"
proof (cases "now - lastContextFlush st < 800")
  case True
  then show ?thesis by (simp add: flushCountsToContext_def)
next
  case False
  have k: "flushKey (localCountsRef st) (localCountsRef st) a s = s" for a s
    by (simp add: flushKey_def countOr0_def Let_def split: option.splits)
  have "fold (flushKey (localCountsRef st) (localCountsRef st)) ks s = s" for ks s
    by (induction ks) (simp_all add: k)
  then show ?thesis
    using False assms by (simp add: flushCountsToContext_def Let_def)
qed

lemma detectAndProcess_no_keypoints:
  assumes "\<forall>name. filtered f name = None"
  shows "stateRef (detectAndProcess f st) = stateRef st"
    and "localCountsRef (detectAndProcess f st) = localCountsRef st"
    and "counts st = localCountsRef st \<Longrightarrow> counts (detectAndProcess f st) = counts st"
proof -
  have d: "detectAndProcess f st = (if processed f then flushCountsToContext (flushNow f) st else st)"
    by (simp add: detectAndProcess_unprocessed detectAndProcess_blocks block_skips [OF assms])
  show "stateRef (detectAndProcess f st) = stateRef st"
    by (simp add: d flush_keeps)
  show "localCountsRef (detectAndProcess f st) = localCountsRef st"
    by (simp add: d flush_keeps)
  show "counts (detectAndProcess f st) = counts st" if "counts st = localCountsRef st"
    using that by (simp add: d flush_synced)
qed

text \<open>
  C6, as the code has it. Over frames in which the filter returns no keypoint (each one
  missing, its score missing or below 0.2, or a coordinate \<^verbatim>\<open>NaN\<close> after the
  rescale), the detector states and the buffer do not change, a store that agrees with
  the buffer does not change, and from the initial state every count stays 0.
\<close>

theorem no_valid_keypoints:
  assumes "\<forall>f \<in> set fs. \<forall>name. filtered f name = None"
  shows "stateRef (run st fs) = stateRef st
       \<and> localCountsRef (run st fs) = localCountsRef st
       \<and> (counts st = localCountsRef st \<longrightarrow> counts (run st fs) = counts st)
       \<and> (\<forall>e. cnt e (run (initialState t0) fs) = 0 \<and> published e (run (initialState t0) fs) = 0)"
proof -
  have g: "stateRef (run s fs) = stateRef s
       \<and> localCountsRef (run s fs) = localCountsRef s
       \<and> (counts s = localCountsRef s \<longrightarrow> counts (run s fs) = counts s)" for s
    using assms
  proof (induction fs arbitrary: s)
    case Nil
    then show ?case by simp
  next
    case (Cons f fs)
    have f: "\<forall>name. filtered f name = None" using Cons.prems by simp
    have r: "\<forall>f \<in> set fs. \<forall>name. filtered f name = None" using Cons.prems by simp
    show ?case
      using Cons.IH [OF r, of "detectAndProcess f s"] detectAndProcess_no_keypoints [OF f, of s]
      by simp
  qed
  have i: "cnt e (initialState t0) = 0 \<and> published e (initialState t0) = 0" for e
    by (cases e) (simp_all add: cnt_def published_def initialState_def defaultLocalCounts_def countOr0_def)
  have "cnt e (run (initialState t0) fs) = 0 \<and> published e (run (initialState t0) fs) = 0" for e
    using g [of "initialState t0"] i [of e] by (simp add: cnt_def published_def initialState_def)
  then show ?thesis using g [of st] by simp
qed

lemma KEYPOINT_INDEX_range: "map_of KEYPOINT_INDEX name = Some i \<Longrightarrow> i < 17"
  by (auto simp: KEYPOINT_INDEX_def split: if_splits)

lemma lowScore_filtered: "filtered (lowScore t) name = None"
  by (auto simp: filtered_def getKeypointByName_def rawKeypoint_def lowScore_def
      dest: KEYPOINT_INDEX_range split: option.splits)

lemma idle_filtered: "filtered (idle t) name = None"
  by (auto simp: filtered_def getKeypointByName_def rawKeypoint_def idle_def exampleFrame_def examplePose_def
      KEYPOINT_INDEX_def split: option.splits if_splits)

theorem no_valid_keypoints_witness:
  "(\<forall>name. filtered (lowScore 1000) name = None)
   \<and> (\<forall>name. filtered (idle 2000) name = None)
   \<and> stateRef (run pendingState [lowScore 1000, idle 2000]) = stateRef pendingState
   \<and> localCountsRef (run pendingState [lowScore 1000, idle 2000]) = localCountsRef pendingState
   \<and> cnt HandLift (run (initialState 0) [lowScore 1000, idle 2000]) = 0
   \<and> published HandLift (run (initialState 0) [lowScore 1000, idle 2000]) = 0"
  using no_valid_keypoints [of "[lowScore 1000, idle 2000]" pendingState 0]
  by (simp add: lowScore_filtered idle_filtered)

section \<open>Frames with infinite coordinates\<close>

lemma infFrame_spec_absent: "spec_absent (infFrame t) name"
  by (auto simp: spec_absent_def rawKeypoint_def infFrame_def infPose_def infKp_def
      spec_disqualified_def frameWidth_def
      dest: KEYPOINT_INDEX_range split: option.splits)

lemma infFrame_kp:
  "map_of KEYPOINT_INDEX name = Some i \<Longrightarrow>
   filtered (infFrame t) name = Some \<lparr>kx = PInf, ky = Num 240, score = Some (Num 0.9)\<rparr>"
  by (auto simp: filtered_def getKeypointByName_def rawKeypoint_def infFrame_def infPose_def infKp_def
      frameWidth_def frameHeight_def Let_def
      dest: KEYPOINT_INDEX_range split: option.splits)

text \<open>
  C6 as stated fails: in a frame whose keypoints all have an infinite x, no keypoint is
  valid in the specification's sense, yet the hand-lift detector counts and the push-up
  detector goes to "down".
\<close>

theorem no_valid_keypoints_counterexample:
  "(\<forall>name. spec_absent (infFrame 1000) name)
   \<and> cnt HandLift (run (initialState 0) [infFrame 1000]) = 1
   \<and> pushUpState (stateRef (run (initialState 0) [infFrame 1000])) = ''down''
   \<and> pushUpState (stateRef (initialState 0)) = ''up''
   \<and> cnt HandLift (initialState 0) = 0"
proof -
  have p: "processed (infFrame 1000)"
    by (simp add: processed_def infFrame_def infPose_def)
  have w: "filtered (infFrame 1000) ''left_wrist'' = Some \<lparr>kx = PInf, ky = Num 240, score = Some (Num 0.9)\<rparr>"
    by (rule infFrame_kp [of _ 9]) (simp add: KEYPOINT_INDEX_def)
  have s: "filtered (infFrame 1000) ''left_shoulder'' = Some \<lparr>kx = PInf, ky = Num 240, score = Some (Num 0.9)\<rparr>"
    by (rule infFrame_kp [of _ 5]) (simp add: KEYPOINT_INDEX_def)
  have r: "filtered (infFrame 1000) ''right_shoulder'' = Some \<lparr>kx = PInf, ky = Num 240, score = Some (Num 0.9)\<rparr>"
    by (rule infFrame_kp [of _ 6]) (simp add: KEYPOINT_INDEX_def)
  have fh: "frameHeight (infFrame 1000) = Num 480" "dateNow (infFrame 1000) = 1000"
    by (simp_all add: frameHeight_def infFrame_def)
  have "cnt HandLift (detectAndProcess (infFrame 1000) (initialState 0))
          = cnt HandLift (blockOf HandLift (infFrame 1000) (initialState 0))"
    using p by (simp only: view_fields if_True)
  also have "\<dots> = 1"
    by (simp add: blockOf.simps handLift_block_def w s bufferIncrement_def
        cnt_def countOr0_update initialState_def initialStateRef_def defaultLocalCounts_def
        countOr0_def)
  finally have c: "cnt HandLift (run (initialState 0) [infFrame 1000]) = 1"
    by simp
  have "label PushUp (stateRef (detectAndProcess (infFrame 1000) (initialState 0)))
          = label PushUp (stateRef (blockOf PushUp (infFrame 1000) (initialState 0)))"
    using p by (simp only: view_fields if_True)
  also have "\<dots> = ''down''"
    by (simp add: blockOf.simps pushUp_block_def r Let_def js_gt_def
        fh initialState_def initialStateRef_def)
  finally have "pushUpState (stateRef (run (initialState 0) [infFrame 1000])) = ''down''"
    by simp
  then show ?thesis
    using c infFrame_spec_absent
    by (simp add: initialState_def initialStateRef_def cnt_def defaultLocalCounts_def countOr0_def)
qed

section \<open>Poses and transitions\<close>

lemma js_le_not_lt: "js_le b a \<Longrightarrow> \<not> js_lt a b"
  by (cases a; cases b) auto

lemma js_lt_add_bands:
  "js_lt k (js_add h (Num a)) \<Longrightarrow> a \<le> b \<Longrightarrow> \<not> js_lt (js_add h (Num b)) k"
  by (cases k; cases h) auto

lemma frame_size_pos:
  "\<exists>w. frameWidth f = Num w \<and> 0 < w" "\<exists>h. frameHeight f = Num h \<and> 0 < h"
  by (simp_all add: frameWidth_def frameHeight_def)

lemma js_lt_between: "js_lt x (Num a) \<Longrightarrow> js_lt (Num b) x \<Longrightarrow> b < a"
  by (cases x) auto

lemma rest_not_active: "restPose e f \<Longrightarrow> \<not> activePose e f"
proof (cases e)
  case HandLift
  assume "restPose e f"
  then show ?thesis using HandLift
    by (auto simp: js_ge_def dest: js_le_not_lt split: option.splits)
next
  case EyeBlink
  assume "restPose e f"
  then show ?thesis using EyeBlink
    by (auto simp: js_gt_def dest: js_lt_between split: option.splits)
next
  case PushUp
  obtain h where h: "frameHeight f = Num h" "0 < h" using frame_size_pos(2) by blast
  assume "restPose e f"
  then show ?thesis using PushUp h
    by (auto simp: js_gt_def dest: js_lt_between split: option.splits)
next
  case HighJump
  obtain h where h: "frameHeight f = Num h" "0 < h" using frame_size_pos(2) by blast
  assume "restPose e f"
  then show ?thesis using HighJump h
    by (auto simp: js_gt_def dest: js_lt_between split: option.splits)
next
  case Squat
  assume "restPose e f"
  then show ?thesis using Squat
    by (auto simp: js_gt_def dest: js_lt_add_bands [where b = 40] split: option.splits)
next
  case JumpingJack
  obtain w where w: "frameWidth f = Num w" "0 < w" using frame_size_pos(1) by blast
  assume "restPose e f"
  then show ?thesis using JumpingJack w
    by (auto simp: js_gt_def dest: js_lt_between split: option.splits)
next
  case Lunge
  assume "restPose e f"
  then show ?thesis using Lunge
    by (auto simp: js_gt_def dest: js_lt_between split: option.splits)
qed

lemma block_quiet:
  assumes "atRest e (stateRef st)" and "\<not> activePose e f"
  shows "atRest e (stateRef (blockOf e f st))
       \<and> cnt e (blockOf e f st) = cnt e st
       \<and> lastTime e (stateRef (blockOf e f st)) = lastTime e (stateRef st)"
  using assms
  by (cases e) (auto simp: block_defs cnt_def countOr0_update split: option.splits)

lemma block_enter:
  assumes "atRest e (stateRef st)" and "activePose e f"
    and "\<forall>d. debounce e = Some d \<longrightarrow> d < dateNow f - lastTime e (stateRef st)"
  shows "inActive e (stateRef (blockOf e f st))
       \<and> cnt e (blockOf e f st) = cnt e st + (if emitsOnEntry e then 1 else 0)"
  using assms
  by (cases e) (auto simp: block_defs cnt_def countOr0_update split: option.splits)

lemma block_return:
  assumes "inActive e (stateRef st)" and "restPose e f"
  shows "atRest e (stateRef (blockOf e f st))
       \<and> cnt e (blockOf e f st) = cnt e st + (if emitsOnEntry e then 0 else 1)"
  using assms
  by (cases e) (auto simp: block_defs cnt_def countOr0_update split: option.splits)

section \<open>One cycle of one detector\<close>

lemma block_hold:
  assumes "inActive e (stateRef st)" and "\<not> restPose e f"
  shows "inActive e (stateRef (blockOf e f st)) \<and> cnt e (blockOf e f st) = cnt e st"
  using assms
  by (cases e) (auto simp: block_defs cnt_def countOr0_update split: option.splits)

lemma frame_quiet:
  assumes "atRest e (stateRef st)" and "\<not> activePose e f"
  shows "atRest e (stateRef (detectAndProcess f st))
       \<and> cnt e (detectAndProcess f st) = cnt e st
       \<and> lastTime e (stateRef (detectAndProcess f st)) = lastTime e (stateRef st)"
  using block_quiet [OF assms] assms(1) by (simp add: view_fields)

lemma frame_hold:
  assumes "inActive e (stateRef st)" and "\<not> restPose e f"
  shows "inActive e (stateRef (detectAndProcess f st)) \<and> cnt e (detectAndProcess f st) = cnt e st"
  using block_hold [OF assms] assms(1) by (simp add: view_fields)

lemma frame_enter:
  assumes "processed f" and "atRest e (stateRef st)" and "activePose e f"
    and "\<forall>d. debounce e = Some d \<longrightarrow> d < dateNow f - lastTime e (stateRef st)"
  shows "inActive e (stateRef (detectAndProcess f st))
       \<and> cnt e (detectAndProcess f st) = cnt e st + (if emitsOnEntry e then 1 else 0)"
  using block_enter [OF assms(2-4)] assms(1) by (simp add: view_fields)

lemma frame_return:
  assumes "processed f" and "inActive e (stateRef st)" and "restPose e f"
  shows "atRest e (stateRef (detectAndProcess f st))
       \<and> cnt e (detectAndProcess f st) = cnt e st + (if emitsOnEntry e then 0 else 1)"
  using block_return [OF assms(2-3)] assms(1) by (simp add: view_fields)

lemma run_quiet:
  "atRest e (stateRef st) \<Longrightarrow> \<forall>f \<in> set fs. \<not> activePose e f \<Longrightarrow>
   atRest e (stateRef (run st fs)) \<and> cnt e (run st fs) = cnt e st
   \<and> lastTime e (stateRef (run st fs)) = lastTime e (stateRef st)"
proof (induction fs arbitrary: st)
  case Nil
  then show ?case by simp
next
  case (Cons f fs)
  have q: "atRest e (stateRef (detectAndProcess f st))
       \<and> cnt e (detectAndProcess f st) = cnt e st
       \<and> lastTime e (stateRef (detectAndProcess f st)) = lastTime e (stateRef st)"
    using Cons.prems by (intro frame_quiet) simp_all
  show ?case
    using Cons.IH [of "detectAndProcess f st"] q Cons.prems(2) by simp
qed

lemma run_hold:
  "inActive e (stateRef st) \<Longrightarrow> \<forall>f \<in> set fs. \<not> restPose e f \<Longrightarrow>
   inActive e (stateRef (run st fs)) \<and> cnt e (run st fs) = cnt e st"
proof (induction fs arbitrary: st)
  case Nil
  then show ?case by simp
next
  case (Cons f fs)
  have q: "inActive e (stateRef (detectAndProcess f st)) \<and> cnt e (detectAndProcess f st) = cnt e st"
    using Cons.prems by (intro frame_hold) simp_all
  show ?case
    using Cons.IH [of "detectAndProcess f st"] q Cons.prems(2) by simp
qed

lemma single_cycle:
  assumes rest: "\<forall>e'. atRest e' (stateRef st)"
    and pre: "\<forall>f \<in> set pre. \<not> activePose e f"
    and a: "processed a" "activePose e a"
    and mid: "\<forall>f \<in> set mid. \<not> restPose e f"
    and r: "processed r" "restPose e r"
    and post: "\<forall>f \<in> set post. \<not> activePose e f"
    and others: "\<forall>e'. e' \<noteq> e \<longrightarrow> (\<forall>f \<in> set (pre @ a # mid @ r # post). \<not> activePose e' f)"
    and time: "\<forall>d. debounce e = Some d \<longrightarrow> d < dateNow a - lastTime e (stateRef st)"
  shows "cnt e (run st (pre @ a # mid @ r # post)) = cnt e st + 1
       \<and> (\<forall>e'. e' \<noteq> e \<longrightarrow> cnt e' (run st (pre @ a # mid @ r # post)) = cnt e' st)
       \<and> (\<forall>e'. atRest e' (stateRef (run st (pre @ a # mid @ r # post))))"
proof -
  let ?fs = "pre @ a # mid @ r # post"
  have o: "atRest e' (stateRef (run st ?fs)) \<and> cnt e' (run st ?fs) = cnt e' st"
    if "e' \<noteq> e" for e'
    using run_quiet [of e' st ?fs] rest others that by blast
  define s1 where "s1 = run st pre"
  define s2 where "s2 = detectAndProcess a s1"
  define s3 where "s3 = run s2 mid"
  define s4 where "s4 = detectAndProcess r s3"
  have run: "run st ?fs = run s4 post"
    by (simp add: run_append s1_def s2_def s3_def s4_def)
  have 1: "atRest e (stateRef s1)" "cnt e s1 = cnt e st"
    "lastTime e (stateRef s1) = lastTime e (stateRef st)"
    using run_quiet [of e st pre] rest pre by (simp_all add: s1_def)
  have 2: "inActive e (stateRef s2)" "cnt e s2 = cnt e st + (if emitsOnEntry e then 1 else 0)"
    using frame_enter [of a e s1] a 1 time by (simp_all add: s2_def)
  have 3: "inActive e (stateRef s3)" "cnt e s3 = cnt e st + (if emitsOnEntry e then 1 else 0)"
    using run_hold [of e s2 mid] 2 mid by (simp_all add: s3_def)
  have 4: "atRest e (stateRef s4)" "cnt e s4 = cnt e st + 1"
    using frame_return [of r e s3] r 3 by (simp_all add: s4_def)
  have 5: "atRest e (stateRef (run s4 post))" "cnt e (run s4 post) = cnt e st + 1"
    using run_quiet [of e s4 post] 4 post by simp_all
  show ?thesis
    using o 5 by (metis run)
qed

text \<open>
  C1. Start with every detector at rest. Let the frames show, for exercise \<open>e\<close>, no
  active pose, then the active pose in a processed frame that comes more than the debounce
  after the detector's last accepted event, then no rest pose, then the rest pose in a
  processed frame, then no active pose again; and let no frame show the active pose of
  another exercise. Then the buffered count of \<open>e\<close> goes up by exactly 1, the other six
  counts are unchanged, and every detector is at rest again.
\<close>

theorem one_cycle_counts_once:
  assumes "\<forall>e'. atRest e' (stateRef st)"
    and "\<forall>f \<in> set pre. \<not> activePose e f"
    and "processed a" and "activePose e a"
    and "\<forall>f \<in> set mid. \<not> restPose e f"
    and "processed r" and "restPose e r"
    and "\<forall>f \<in> set post. \<not> activePose e f"
    and "\<forall>e'. e' \<noteq> e \<longrightarrow> (\<forall>f \<in> set (pre @ a # mid @ r # post). \<not> activePose e' f)"
    and "\<forall>d. debounce e = Some d \<longrightarrow> d < dateNow a - lastTime e (stateRef st)"
  shows "cnt e (run st (pre @ a # mid @ r # post)) = cnt e st + 1
       \<and> (\<forall>e'. e' \<noteq> e \<longrightarrow> cnt e' (run st (pre @ a # mid @ r # post)) = cnt e' st)
       \<and> (\<forall>e'. atRest e' (stateRef (run st (pre @ a # mid @ r # post))))"
  using assms by (rule single_cycle)

lemma initial_atRest: "atRest e (stateRef (initialState t0))"
  by (cases e) (simp_all add: initialState_def initialStateRef_def)

lemma initial_zero:
  "cnt e (initialState t0) = 0" "published e (initialState t0) = 0"
  "lastTime e (stateRef (initialState t0)) = 0"
  by (cases e; simp add: cnt_def published_def initialState_def initialStateRef_def
      defaultLocalCounts_def countOr0_def)+

lemma squat_frames:
  "processed (squatUp t)" "processed (squatDown t)"
  "restPose Squat (squatUp t)" "activePose Squat (squatDown t)"
  "\<not> activePose Squat (squatUp t)" "\<not> restPose Squat (squatDown t)"
  by (simp_all add: squatUp_def squatDown_def example_defs js_gt_def)

lemma squat_frames_others:
  "e \<noteq> Squat \<Longrightarrow> \<not> activePose e (squatUp t) \<and> \<not> activePose e (squatDown t)"
  by (cases e) (simp_all add: squatUp_def squatDown_def example_defs)

lemma squat_dateNow: "dateNow (squatUp t) = t" "dateNow (squatDown t) = t"
  by (simp_all add: squatUp_def squatDown_def exampleFrame_def)

theorem one_cycle_counts_once_witness:
  "processed (squatDown 2000) \<and> activePose Squat (squatDown 2000)
   \<and> processed (squatUp 3000) \<and> restPose Squat (squatUp 3000)
   \<and> debounce Squat = Some 500
   \<and> 500 < dateNow (squatDown 2000) - lastTime Squat (stateRef (initialState 0))
   \<and> cnt Squat (run (initialState 0)
        ([squatUp 1000] @ squatDown 2000 # [squatDown 2200] @ squatUp 3000 # [squatUp 3100]))
       = cnt Squat (initialState 0) + 1
   \<and> cnt HandLift (run (initialState 0)
        ([squatUp 1000] @ squatDown 2000 # [squatDown 2200] @ squatUp 3000 # [squatUp 3100]))
       = cnt HandLift (initialState 0)
   \<and> cnt Lunge (run (initialState 0)
        ([squatUp 1000] @ squatDown 2000 # [squatDown 2200] @ squatUp 3000 # [squatUp 3100]))
       = cnt Lunge (initialState 0)
   \<and> cnt Squat (initialState 0) = 0"
proof -
  let ?fs = "[squatUp 1000] @ squatDown 2000 # [squatDown 2200] @ squatUp 3000 # [squatUp 3100]"
  have "cnt Squat (run (initialState 0) ?fs) = cnt Squat (initialState 0) + 1
      \<and> (\<forall>e'. e' \<noteq> Squat \<longrightarrow> cnt e' (run (initialState 0) ?fs) = cnt e' (initialState 0))
      \<and> (\<forall>e'. atRest e' (stateRef (run (initialState 0) ?fs)))"
    by (rule one_cycle_counts_once)
       (simp_all add: initial_atRest initial_zero squat_frames squat_frames_others
          squat_dateNow del: activePose.simps restPose.simps)
  then show ?thesis
    by (simp add: initial_zero squat_frames squat_dateNow
        del: activePose.simps restPose.simps)
qed

section \<open>Debounce\<close>

lemma emits_block:
  "emits e f st = (processed f \<and> cnt e (blockOf e f st) \<noteq> cnt e st)"
  by (simp add: emits_def view_fields)

lemma settled_frame:
  "settled e d t lo (detectAndProcess f st) =
     (if processed f then settled e d t lo (blockOf e f st) else settled e d t lo st)"
  by (simp add: settled_def view_fields)

lemma block_emits_settles:
  assumes "debounce e = Some d" and "cnt e (blockOf e f st) \<noteq> cnt e st"
  shows "settled e d (dateNow f) lo (blockOf e f st) \<and> cnt e (blockOf e f st) = cnt e st + 1"
  using assms
  by (cases e)
     (auto simp: settled_def block_defs cnt_def countOr0_update split: option.splits if_splits)

lemma block_settled:
  assumes "debounce e = Some d" and "settled e d t lo st" and "lo \<le> dateNow f"
  shows "(cnt e (blockOf e f st) \<noteq> cnt e st \<longrightarrow> t + d < dateNow f)
       \<and> (cnt e (blockOf e f st) = cnt e st \<longrightarrow> settled e d t (dateNow f) (blockOf e f st))"
  using assms
  by (cases e)
     (auto simp: settled_def block_defs cnt_def countOr0_update split: option.splits if_splits)

lemma frame_emits_settles:
  assumes "debounce e = Some d" and "emits e f st"
  shows "settled e d (dateNow f) lo (detectAndProcess f st)
       \<and> cnt e (detectAndProcess f st) = cnt e st + 1"
  using assms block_emits_settles [of e d f st lo]
  by (simp add: emits_block settled_frame view_fields)

lemma frame_settled:
  assumes "debounce e = Some d" and "settled e d t lo st" and "lo \<le> dateNow f"
  shows "(emits e f st \<longrightarrow> t + d < dateNow f)
       \<and> (\<not> emits e f st \<longrightarrow>
            settled e d t (dateNow f) (detectAndProcess f st)
            \<and> cnt e (detectAndProcess f st) = cnt e st)"
proof (cases "processed f")
  case True
  then show ?thesis
    using block_settled [OF assms] by (simp add: emits_block settled_frame view_fields)
next
  case False
  have "settled e d t (dateNow f) st"
    using assms(2,3) by (auto simp: settled_def)
  then show ?thesis
    using False by (simp add: emits_block settled_frame view_fields)
qed

lemma run_settled:
  assumes "debounce e = Some d"
  shows "settled e d t lo st \<Longrightarrow> sorted (map dateNow (mid @ [g])) \<Longrightarrow>
         \<forall>f \<in> set (mid @ [g]). lo \<le> dateNow f \<Longrightarrow> emits e g (run st mid) \<Longrightarrow>
         t + d < dateNow g"
proof (induction mid arbitrary: st t lo)
  case Nil
  then show ?case using frame_settled [OF assms, of t lo st g] by simp
next
  case (Cons f mid)
  let ?st' = "detectAndProcess f st"
  have lo: "lo \<le> dateNow f" using Cons.prems(3) by simp
  have srt: "sorted (map dateNow (mid @ [g]))" using Cons.prems(2) by simp
  have ge: "\<forall>h \<in> set (mid @ [g]). dateNow f \<le> dateNow h" using Cons.prems(2) by auto
  have em: "emits e g (run ?st' mid)" using Cons.prems(4) by simp
  show ?case
  proof (cases "emits e f st")
    case True
    have "settled e d (dateNow f) (dateNow f) ?st'"
      using frame_emits_settles [OF assms True] by simp
    then have "dateNow f + d < dateNow g"
      using Cons.IH [of "dateNow f" "dateNow f" ?st'] srt ge em by simp
    moreover have "t + d < dateNow f"
      using frame_settled [OF assms Cons.prems(1) lo] True by simp
    moreover have "dateNow f \<le> dateNow g" using ge by simp
    ultimately show ?thesis by simp
  next
    case False
    then have "settled e d t (dateNow f) ?st'"
      using frame_settled [OF assms Cons.prems(1) lo] by simp
    then show ?thesis
      using Cons.IH [of t "dateNow f" ?st'] srt ge em by simp
  qed
qed

lemma run_window_silent:
  assumes "debounce e = Some d"
  shows "settled e d t lo st \<Longrightarrow> sorted (map dateNow fs) \<Longrightarrow>
         \<forall>f \<in> set fs. lo \<le> dateNow f \<and> dateNow f \<le> t + d \<Longrightarrow>
         cnt e (run st fs) = cnt e st"
proof (induction fs arbitrary: st lo)
  case Nil
  then show ?case by simp
next
  case (Cons f fs)
  let ?st' = "detectAndProcess f st"
  have lo: "lo \<le> dateNow f" and hi: "dateNow f \<le> t + d" using Cons.prems(3) by simp_all
  have ne: "\<not> emits e f st"
    using frame_settled [OF assms Cons.prems(1) lo] hi by auto
  then have s: "settled e d t (dateNow f) ?st'" and c: "cnt e ?st' = cnt e st"
    using frame_settled [OF assms Cons.prems(1) lo] by simp_all
  have "cnt e (run ?st' fs) = cnt e ?st'"
    using Cons.IH [OF s] Cons.prems(2,3) by auto
  then show ?case using c by simp
qed

lemma run_window_once:
  assumes "debounce e = Some d"
  shows "sorted (map dateNow fs) \<Longrightarrow>
         \<forall>f \<in> set fs. \<forall>g \<in> set fs. dateNow g - dateNow f \<le> d \<Longrightarrow>
         cnt e (run st fs) \<le> cnt e st + 1"
proof (induction fs arbitrary: st)
  case Nil
  then show ?case by simp
next
  case (Cons f fs)
  let ?st' = "detectAndProcess f st"
  have srt: "sorted (map dateNow fs)" using Cons.prems(1) by simp
  have win: "\<forall>h \<in> set fs. \<forall>g \<in> set fs. dateNow g - dateNow h \<le> d" using Cons.prems(2) by simp
  show ?case
  proof (cases "emits e f st")
    case True
    have s: "settled e d (dateNow f) (dateNow f) ?st'" and c: "cnt e ?st' = cnt e st + 1"
      using frame_emits_settles [OF assms True] by simp_all
    have "\<forall>g \<in> set fs. dateNow f \<le> dateNow g \<and> dateNow g \<le> dateNow f + d"
      using Cons.prems by auto
    then have "cnt e (run ?st' fs) = cnt e ?st'"
      using run_window_silent [OF assms s srt] by simp
    then show ?thesis using c by simp
  next
    case False
    then have "cnt e ?st' = cnt e st" by (simp add: emits_def)
    then show ?thesis using Cons.IH [OF srt win, of ?st'] by simp
  qed
qed

lemma debounce_separates:
  assumes "debounce e = Some d"
    and "sorted (map dateNow (fi # mid @ [fj]))"
    and "emits e fi (run st pre)"
    and "emits e fj (run st (pre @ fi # mid))"
  shows "d < dateNow fj - dateNow fi"
proof -
  let ?s = "detectAndProcess fi (run st pre)"
  have s: "settled e d (dateNow fi) (dateNow fi) ?s"
    using frame_emits_settles [OF assms(1,3)] by simp
  have r: "run st (pre @ fi # mid) = run ?s mid"
    by (simp add: run_append)
  have "dateNow fi + d < dateNow fj"
    using run_settled [OF assms(1) s, of mid fj] assms(2,4) by (auto simp: r)
  then show ?thesis by simp
qed

text \<open>
  C2. For a detector with debounce \<open>d\<close> and frames whose clock readings do not decrease,
  from any state: two frames that both count a repetition of \<open>e\<close> are more than \<open>d\<close>
  apart; and frames that all lie within \<open>d\<close> of each other raise the count of \<open>e\<close> by at
  most 1.
\<close>

theorem debounce_spacing:
  assumes "debounce e = Some d" and "sorted (map dateNow fs)"
  shows "(\<forall>pre fi mid fj post.
            fs = pre @ fi # mid @ fj # post \<and> emits e fi (run st pre)
            \<and> emits e fj (run st (pre @ fi # mid)) \<longrightarrow>
            d < dateNow fj - dateNow fi)
       \<and> ((\<forall>f \<in> set fs. \<forall>g \<in> set fs. dateNow g - dateNow f \<le> d) \<longrightarrow>
            cnt e (run st fs) \<le> cnt e st + 1)"
proof -
  have "d < dateNow fj - dateNow fi"
    if "fs = pre @ fi # mid @ fj # post" and "emits e fi (run st pre)"
      and "emits e fj (run st (pre @ fi # mid))" for pre fi mid fj post
  proof -
    have "sorted (map dateNow (fi # mid @ [fj]))"
      using assms(2) that(1) by (simp add: sorted_append)
    then show ?thesis
      using debounce_separates [OF assms(1) _ that(2,3)] by simp
  qed
  moreover have "cnt e (run st fs) \<le> cnt e st + 1"
    if "\<forall>f \<in> set fs. \<forall>g \<in> set fs. dateNow g - dateNow f \<le> d"
    using run_window_once [OF assms that] .
  ultimately show ?thesis by blast
qed

lemma jump_frames:
  "processed (jump t)" "processed (land t)" "dateNow (jump t) = t" "dateNow (land t) = t"
  "activePose HighJump (jump t)" "restPose HighJump (land t)"
  by (simp_all add: jump_def land_def example_defs js_gt_def)

lemma highJump_jump:
  "cnt HighJump (detectAndProcess (jump t) st) =
     (if highJumpState (stateRef st) = ''down'' \<and> t - highJump (lastTimes (stateRef st)) > 500
      then cnt HighJump st + 1 else cnt HighJump st)"
  "highJumpState (stateRef (detectAndProcess (jump t) st)) =
     (if highJumpState (stateRef st) = ''down'' \<and> t - highJump (lastTimes (stateRef st)) > 500
      then ''up'' else highJumpState (stateRef st))"
  "highJump (lastTimes (stateRef (detectAndProcess (jump t) st))) =
     (if highJumpState (stateRef st) = ''down'' \<and> t - highJump (lastTimes (stateRef st)) > 500
      then t else highJump (lastTimes (stateRef st)))"
proof -
  have c: "cnt HighJump (detectAndProcess (jump t) st) = cnt HighJump (blockOf HighJump (jump t) st)"
    using view_fields(5) [of HighJump "jump t" st] by (simp add: jump_frames)
  have l: "highJumpState (stateRef (detectAndProcess (jump t) st))
      = highJumpState (stateRef (blockOf HighJump (jump t) st))"
    using view_fields(1) [of HighJump "jump t" st] by (simp add: jump_frames)
  have m: "highJump (lastTimes (stateRef (detectAndProcess (jump t) st)))
      = highJump (lastTimes (stateRef (blockOf HighJump (jump t) st)))"
    using view_fields(4) [of HighJump "jump t" st] by (simp add: jump_frames)
  show "cnt HighJump (detectAndProcess (jump t) st) =
     (if highJumpState (stateRef st) = ''down'' \<and> t - highJump (lastTimes (stateRef st)) > 500
      then cnt HighJump st + 1 else cnt HighJump st)"
    unfolding c
    by (simp add: blockOf.simps highJump_block_def jump_def example_defs js_gt_def
        bufferIncrement_def cnt_def countOr0_update)
  show "highJumpState (stateRef (detectAndProcess (jump t) st)) =
     (if highJumpState (stateRef st) = ''down'' \<and> t - highJump (lastTimes (stateRef st)) > 500
      then ''up'' else highJumpState (stateRef st))"
    unfolding l
    by (simp add: blockOf.simps highJump_block_def jump_def example_defs js_gt_def
        bufferIncrement_def)
  show "highJump (lastTimes (stateRef (detectAndProcess (jump t) st))) =
     (if highJumpState (stateRef st) = ''down'' \<and> t - highJump (lastTimes (stateRef st)) > 500
      then t else highJump (lastTimes (stateRef st)))"
    unfolding m
    by (simp add: blockOf.simps highJump_block_def jump_def example_defs js_gt_def
        bufferIncrement_def)
qed

lemma highJump_land:
  "cnt HighJump (detectAndProcess (land t) st) = cnt HighJump st"
  "highJumpState (stateRef (detectAndProcess (land t) st)) = ''down''"
  "highJump (lastTimes (stateRef (detectAndProcess (land t) st)))
     = highJump (lastTimes (stateRef st))"
proof -
  have c: "cnt HighJump (detectAndProcess (land t) st) = cnt HighJump (blockOf HighJump (land t) st)"
    using view_fields(5) [of HighJump "land t" st] by (simp add: jump_frames)
  have l: "highJumpState (stateRef (detectAndProcess (land t) st))
      = highJumpState (stateRef (blockOf HighJump (land t) st))"
    using view_fields(1) [of HighJump "land t" st] by (simp add: jump_frames)
  have m: "highJump (lastTimes (stateRef (detectAndProcess (land t) st)))
      = highJump (lastTimes (stateRef (blockOf HighJump (land t) st)))"
    using view_fields(4) [of HighJump "land t" st] by (simp add: jump_frames)
  show "cnt HighJump (detectAndProcess (land t) st) = cnt HighJump st"
    unfolding c
    by (simp add: blockOf.simps highJump_block_def land_def example_defs js_gt_def
        bufferIncrement_def cnt_def countOr0_update)
  show "highJumpState (stateRef (detectAndProcess (land t) st)) = ''down''"
    unfolding l
    by (simp add: blockOf.simps highJump_block_def land_def example_defs js_gt_def
        bufferIncrement_def)
  show "highJump (lastTimes (stateRef (detectAndProcess (land t) st)))
     = highJump (lastTimes (stateRef st))"
    unfolding m
    by (simp add: blockOf.simps highJump_block_def land_def example_defs js_gt_def
        bufferIncrement_def)
qed

theorem debounce_spacing_witness:
  "debounce HighJump = Some 500
   \<and> sorted (map dateNow [jump 1000, land 1010, jump 1020, land 1500, jump 1600])
   \<and> emits HighJump (jump 1000) (run (initialState 0) [])
   \<and> \<not> emits HighJump (jump 1020) (run (initialState 0) [jump 1000, land 1010])
   \<and> emits HighJump (jump 1600) (run (initialState 0) ([] @ jump 1000 # [land 1010, jump 1020, land 1500]))
   \<and> 500 < dateNow (jump 1600) - dateNow (jump 1000)
   \<and> sorted (map dateNow [jump 1000, land 1030, jump 1060, land 1090])
   \<and> cnt HighJump (run (initialState 0) [jump 1000, land 1030, jump 1060, land 1090])
       \<le> cnt HighJump (initialState 0) + 1"
proof -
  have i: "highJumpState (stateRef (initialState 0)) = ''down''"
    "highJump (lastTimes (stateRef (initialState 0))) = 0"
    by (simp_all add: initialState_def initialStateRef_def)
  have e1: "emits HighJump (jump 1000) (run (initialState 0) [])"
    by (simp add: emits_def highJump_jump i)
  have e2: "\<not> emits HighJump (jump 1020) (run (initialState 0) [jump 1000, land 1010])"
    by (simp add: emits_def highJump_jump highJump_land i)
  have e3: "emits HighJump (jump 1600)
      (run (initialState 0) ([] @ jump 1000 # [land 1010, jump 1020, land 1500]))"
    by (simp add: emits_def highJump_jump highJump_land i)
  have s1: "sorted (map dateNow [jump 1000, land 1010, jump 1020, land 1500, jump 1600])"
    by (simp add: jump_frames)
  have s2: "sorted (map dateNow [jump 1000, land 1030, jump 1060, land 1090])"
    by (simp add: jump_frames)
  have d: "debounce HighJump = Some 500" by simp
  from debounce_spacing [OF d s1, of "initialState 0"]
  have "[jump 1000, land 1010, jump 1020, land 1500, jump 1600]
          = [] @ jump 1000 # [land 1010, jump 1020, land 1500] @ jump 1600 # []
        \<and> emits HighJump (jump 1000) (run (initialState 0) [])
        \<and> emits HighJump (jump 1600)
            (run (initialState 0) ([] @ jump 1000 # [land 1010, jump 1020, land 1500])) \<longrightarrow>
        500 < dateNow (jump 1600) - dateNow (jump 1000)"
    by blast
  then have sep: "500 < dateNow (jump 1600) - dateNow (jump 1000)"
    using e1 e3 by simp
  have win: "cnt HighJump (run (initialState 0) [jump 1000, land 1030, jump 1060, land 1090])
       \<le> cnt HighJump (initialState 0) + 1"
    using debounce_spacing [OF d s2, of "initialState 0"] by (simp add: jump_frames)
  show ?thesis
    using d s1 e1 e2 e3 sep s2 win by simp
qed

section \<open>No reset\<close>

lemma applyOp_mono:
  "countOr0 (localCountsRef st) k \<le> countOr0 (localCountsRef (applyOp op st)) k"
  by (cases op)
     (simp_all add: updateCount_def bufferIncrement_mono flush_keeps detectAndProcess_mono)

lemma applyOps_mono:
  "countOr0 (localCountsRef st) k \<le> countOr0 (localCountsRef (fold applyOp ops st)) k"
proof (induction ops arbitrary: st)
  case Nil
  then show ?case by simp
next
  case (Cons op ops)
  have "countOr0 (localCountsRef st) k \<le> countOr0 (localCountsRef (applyOp op st)) k"
    by (rule applyOp_mono)
  also have "\<dots> \<le> countOr0 (localCountsRef (fold applyOp ops (applyOp op st))) k"
    by (rule Cons.IH)
  finally show ?case by simp
qed

text \<open>
  C9 as stated fails: the code has no reset. Once a hand lift is counted, no sequence of
  the operations the code offers brings the buffered count back to 0.
\<close>

theorem no_reset_operation_counterexample:
  "\<not> (\<exists>ops. cnt HandLift (fold applyOp ops (detectAndProcess (handUp 1000) (initialState 0))) = 0)"
proof
  assume "\<exists>ops. cnt HandLift (fold applyOp ops (detectAndProcess (handUp 1000) (initialState 0))) = 0"
  then obtain ops where
    z: "cnt HandLift (fold applyOp ops (detectAndProcess (handUp 1000) (initialState 0))) = 0"
    by blast
  have "cnt HandLift (detectAndProcess (handUp 1000) (initialState 0))
      \<le> cnt HandLift (fold applyOp ops (detectAndProcess (handUp 1000) (initialState 0)))"
    unfolding cnt_def by (rule applyOps_mono)
  then show False
    using z handUp_counts [of 1000 0] by simp
qed

text \<open>
  C9, as the code has it. No operation ever lowers a buffered count; every detector is at
  rest and every count is 0, in buffer and store, in the initial state; and from the
  initial state one cycle of an exercise takes its count from 0 to 1.
\<close>

theorem no_reset_operation:
  "(\<forall>ops st k. countOr0 (localCountsRef st) k
        \<le> countOr0 (localCountsRef (fold applyOp ops st)) k)
   \<and> (\<forall>e. atRest e (stateRef (initialState t0)) \<and> lastTime e (stateRef (initialState t0)) = 0
          \<and> cnt e (initialState t0) = 0 \<and> published e (initialState t0) = 0)
   \<and> (\<forall>e pre a mid r post.
         (\<forall>f \<in> set pre. \<not> activePose e f) \<and> processed a \<and> activePose e a
         \<and> (\<forall>f \<in> set mid. \<not> restPose e f) \<and> processed r \<and> restPose e r
         \<and> (\<forall>f \<in> set post. \<not> activePose e f)
         \<and> (\<forall>e'. e' \<noteq> e \<longrightarrow> (\<forall>f \<in> set (pre @ a # mid @ r # post). \<not> activePose e' f))
         \<and> (\<forall>d. debounce e = Some d \<longrightarrow> d < dateNow a) \<longrightarrow>
         cnt e (run (initialState t0) (pre @ a # mid @ r # post)) = 1)"
proof -
  have "cnt e (run (initialState t0) (pre @ a # mid @ r # post)) = 1"
    if "\<forall>f \<in> set pre. \<not> activePose e f" "processed a" "activePose e a"
      "\<forall>f \<in> set mid. \<not> restPose e f" "processed r" "restPose e r"
      "\<forall>f \<in> set post. \<not> activePose e f"
      "\<forall>e'. e' \<noteq> e \<longrightarrow> (\<forall>f \<in> set (pre @ a # mid @ r # post). \<not> activePose e' f)"
      "\<forall>d. debounce e = Some d \<longrightarrow> d < dateNow a"
    for e pre a mid r post
  proof -
    have "cnt e (run (initialState t0) (pre @ a # mid @ r # post)) = cnt e (initialState t0) + 1"
      using single_cycle [of "initialState t0" pre e a mid r post] that
      by (simp add: initial_atRest initial_zero del: activePose.simps restPose.simps)
    then show ?thesis by (simp add: initial_zero)
  qed
  then show ?thesis
    using applyOps_mono initial_atRest initial_zero by blast
qed

theorem no_reset_operation_witness:
  "countOr0 (localCountsRef pendingState) ''squats''
      \<le> countOr0 (localCountsRef
           (fold applyOp [UpdateCount ''squats'' 0, FlushCounts 5000, ProcessFrame (idle 6000)]
              pendingState)) ''squats''
   \<and> countOr0 (localCountsRef pendingState) ''squats'' = 1
   \<and> atRest Squat (stateRef (initialState 0)) \<and> cnt Squat (initialState 0) = 0
   \<and> published Squat (initialState 0) = 0
   \<and> processed (squatDown 2000) \<and> activePose Squat (squatDown 2000)
   \<and> processed (squatUp 3000) \<and> restPose Squat (squatUp 3000)
   \<and> 500 < dateNow (squatDown 2000)
   \<and> cnt Squat (run (initialState 0)
        ([squatUp 1000] @ squatDown 2000 # [squatDown 2200] @ squatUp 3000 # [squatUp 3100]))
       = 1"
proof -
  note th = no_reset_operation [of 0]
  from th have m: "countOr0 (localCountsRef pendingState) ''squats''
      \<le> countOr0 (localCountsRef
           (fold applyOp [UpdateCount ''squats'' 0, FlushCounts 5000, ProcessFrame (idle 6000)]
              pendingState)) ''squats''"
    by blast
  from th have i: "atRest Squat (stateRef (initialState 0)) \<and> cnt Squat (initialState 0) = 0
      \<and> published Squat (initialState 0) = 0"
    by blast
  let ?pre = "[squatUp 1000]" and ?mid = "[squatDown 2200]" and ?post = "[squatUp 3100]"
  from th have "(\<forall>f \<in> set ?pre. \<not> activePose Squat f) \<and> processed (squatDown 2000)
         \<and> activePose Squat (squatDown 2000)
         \<and> (\<forall>f \<in> set ?mid. \<not> restPose Squat f) \<and> processed (squatUp 3000)
         \<and> restPose Squat (squatUp 3000)
         \<and> (\<forall>f \<in> set ?post. \<not> activePose Squat f)
         \<and> (\<forall>e'. e' \<noteq> Squat \<longrightarrow>
               (\<forall>f \<in> set (?pre @ squatDown 2000 # ?mid @ squatUp 3000 # ?post).
                  \<not> activePose e' f))
         \<and> (\<forall>d. debounce Squat = Some d \<longrightarrow> d < dateNow (squatDown 2000)) \<longrightarrow>
         cnt Squat (run (initialState 0)
           (?pre @ squatDown 2000 # ?mid @ squatUp 3000 # ?post)) = 1"
    by blast
  then have c: "cnt Squat (run (initialState 0)
           (?pre @ squatDown 2000 # ?mid @ squatUp 3000 # ?post)) = 1"
    by (simp add: squat_frames squat_frames_others squat_dateNow
        del: activePose.simps restPose.simps)
  have p: "countOr0 (localCountsRef pendingState) ''squats'' = 1"
    by (simp add: pendingState_def bufferIncrement_def countOr0_update initialState_def
        defaultLocalCounts_def countOr0_def)
  show ?thesis
    using m i c p
    by (simp add: squat_frames squat_dateNow del: activePose.simps restPose.simps)
qed

section \<open>Buffer and store across mounts\<close>
























end
